theory Spec2Isabelle
  imports Main
begin

section \<open>Python values, exceptions and the world the program runs in\<close>

text \<open>
  The module \<^verbatim>\<open>exchange_template.py\<close> defines one class, \<^verbatim>\<open>ExchangeAPI\<close>.
  An uncaught Python exception is a value of \<open>py_error\<close>; a call that can raise returns
  \<open>py_error + 'r\<close> with \<open>Inl\<close> for the exception.
\<close>

datatype py_error =
    NotImplementedError
  | IndexError
  | ValueError
  | FileNotFoundError
  | IsADirectoryError
  | PermissionError
  | CsvError

text \<open>
  The attributes set by \<^verbatim>\<open>__init__\<close>.
\<close>

record ExchangeAPI =
  name :: string
  access_key :: string
  secret_key :: string
  api_passphrase :: "string option"

text \<open>
  What the program can observe and change: the object itself, the files (a path maps to
  the text of the file), the paths that cannot be opened for writing (a missing directory,
  a directory, no permission), each with the exception \<^verbatim>\<open>open\<close> raises there, the
  lines printed so far, and a log of the calls that leave this module (candle retrieval,
  opening a file), in the order they happen.
\<close>

datatype 'a event =
    Get_last_candles string string 'a
  | Get_candles string string string "string option"
  | Open_write string
  | Open_read string

record 'a world =
  self :: ExchangeAPI
  files :: "string \<rightharpoonup> string"
  write_errors :: "string \<rightharpoonup> py_error"
  stdout :: "string list"
  trace :: "'a event list"

definition print :: "string \<Rightarrow> 'a world \<Rightarrow> 'a world" where
  "print s w = w\<lparr>stdout := stdout w @ [s]\<rparr>"

definition log_event :: "'a event \<Rightarrow> 'a world \<Rightarrow> 'a world" where
  "log_event e w = w\<lparr>trace := trace w @ [e]\<rparr>"

section \<open>Strings\<close>

text \<open>
  A Python \<^verbatim>\<open>str\<close> is the list of its characters. What \<^verbatim>\<open>str.lower()\<close>
  returns depends on the Unicode tables of the interpreter: it is a parameter \<open>lower\<close>
  of the constructor below, any function from strings to strings.
\<close>

text \<open>
  \<^verbatim>\<open>s.startswith(sub)\<close> and \<^verbatim>\<open>s.find(sub)\<close>: the lowest index at which
  \<open>sub\<close> occurs in \<open>s\<close>, or \<open>-1\<close>.
\<close>

fun startswith :: "string \<Rightarrow> string \<Rightarrow> bool" where
  "startswith s [] = True"
| "startswith [] (c # sub) = False"
| "startswith (d # s) (c # sub) = (d = c \<and> startswith s sub)"

fun str_find :: "string \<Rightarrow> string \<Rightarrow> int" where
  "str_find [] sub = (if startswith [] sub then 0 else - 1)"
| "str_find (d # s) sub =
     (if startswith (d # s) sub then 0
      else (let i = str_find s sub in if i = - 1 then - 1 else i + 1))"

text \<open>\<^verbatim>\<open>s.endswith(suffix)\<close>: what it is for a path to carry an extension.\<close>

definition endswith :: "string \<Rightarrow> string \<Rightarrow> bool" where
  "endswith s suffix = startswith (rev s) (rev suffix)"

section \<open>The class \<^verbatim>\<open>ExchangeAPI\<close>\<close>

subsection \<open>Construction\<close>

definition ExchangeAPI_init ::
  "(string \<Rightarrow> string) \<Rightarrow> string \<Rightarrow> string \<Rightarrow> string \<Rightarrow> string option \<Rightarrow> ExchangeAPI" where
  "ExchangeAPI_init lower nm ak sk pp =
     \<lparr>name = lower nm, access_key = ak, secret_key = sk, api_passphrase = pp\<rparr>"

subsection \<open>The operations every exchange class has to override\<close>

text \<open>
  Each body is \<^verbatim>\<open>raise NotImplementedError\<close>: whatever the arguments, the call
  raises and leaves the world as it was.
\<close>

definition get_all_balances :: "'a world \<Rightarrow> (py_error + 'r) \<times> 'a world" where
  "get_all_balances w = (Inl NotImplementedError, w)"

definition get_balance :: "string \<Rightarrow> 'a world \<Rightarrow> (py_error + 'r) \<times> 'a world" where
  "get_balance coin w = (Inl NotImplementedError, w)"

definition get_available_markets :: "'a world \<Rightarrow> (py_error + 'r) \<times> 'a world" where
  "get_available_markets w = (Inl NotImplementedError, w)"

definition get_coin_price :: "string \<Rightarrow> string \<Rightarrow> 'a world \<Rightarrow> (py_error + 'r) \<times> 'a world" where
  "get_coin_price nm pair w = (Inl NotImplementedError, w)"

definition get_coins_prices :: "'a world \<Rightarrow> (py_error + 'r) \<times> 'a world" where
  "get_coins_prices w = (Inl NotImplementedError, w)"

definition get_order_book :: "'m \<Rightarrow> 's \<Rightarrow> 'a world \<Rightarrow> (py_error + 'r) \<times> 'a world" where
  "get_order_book market side w = (Inl NotImplementedError, w)"

definition withdraw_asset ::
  "string \<Rightarrow> string \<Rightarrow> string \<Rightarrow> 'a world \<Rightarrow> (py_error + 'r) \<times> 'a world" where
  "withdraw_asset asset target_addr amount w = (Inl NotImplementedError, w)"

definition create_order ::
  "'m \<Rightarrow> 's \<Rightarrow> 'p \<Rightarrow> 'q \<Rightarrow> 'a world \<Rightarrow> (py_error + 'r) \<times> 'a world" where
  "create_order market side price amount w = (Inl NotImplementedError, w)"

definition get_candles ::
  "string \<Rightarrow> string \<Rightarrow> string \<Rightarrow> string option \<Rightarrow> 'a world \<Rightarrow> (py_error + 'r) \<times> 'a world" where
  "get_candles symbol interval start endt w = (Inl NotImplementedError, w)"

definition get_last_candles ::
  "string \<Rightarrow> string \<Rightarrow> 'a \<Rightarrow> 'a world \<Rightarrow> (py_error + 'r) \<times> 'a world" where
  "get_last_candles symbol interval amount w = (Inl NotImplementedError, w)"

subsection \<open>Candles and the methods a subclass supplies\<close>

text \<open>
  A candle is a \<^verbatim>\<open>dict\<close>: its keys in insertion order, each with its value.
  \<^verbatim>\<open>dump_market_data_to_file\<close> calls \<^verbatim>\<open>self.get_last_candles\<close> and
  \<^verbatim>\<open>self.get_candles\<close>, which a subclass overrides; the class of the object is the
  pair of the two methods it dispatches to. The methods of \<^verbatim>\<open>ExchangeAPI\<close> itself
  are the ones above.
\<close>

type_synonym 'v candle = "(string \<times> 'v) list"

record ('a, 'v) exchange_class =
  get_last_candles_method ::
    "string \<Rightarrow> string \<Rightarrow> 'a \<Rightarrow> 'a world \<Rightarrow> (py_error + 'v candle list) \<times> 'a world"
  get_candles_method ::
    "string \<Rightarrow> string \<Rightarrow> string \<Rightarrow> string option \<Rightarrow> 'a world
       \<Rightarrow> (py_error + 'v candle list) \<times> 'a world"

definition base_class :: "('a, 'v) exchange_class" where
  "base_class =
     \<lparr>get_last_candles_method = get_last_candles, get_candles_method = get_candles\<rparr>"

section \<open>The \<^verbatim>\<open>csv\<close> module\<close>

definition delimiter :: char where "delimiter = CHR '',''"
definition CR :: char where "CR = CHR 0x0D"
definition LF :: char where "LF = CHR 0x0A"

subsection \<open>Writing\<close>

text \<open>
  \<^verbatim>\<open>csv.writer(csvfile, delimiter=",", quotechar="|", quoting=csv.QUOTE_MINIMAL)\<close>,
  with the line terminator \<^verbatim>\<open>"\r\n"\<close> and quote doubling of the default dialect.
  A field is quoted when it holds the delimiter, the quote character or a character of the
  line terminator, or when it is the empty only field of its row; a quote character inside
  a field is written twice.
\<close>

definition writer_quotechar :: char where "writer_quotechar = CHR ''|''"

definition needs_quotes :: "string \<Rightarrow> bool" where
  "needs_quotes s =
     (delimiter \<in> set s \<or> writer_quotechar \<in> set s \<or> CR \<in> set s \<or> LF \<in> set s)"

definition join_append :: "bool \<Rightarrow> string \<Rightarrow> string" where
  "join_append quote_empty s =
     (let body = concat (map (\<lambda>c. if c = writer_quotechar then [c, c] else [c]) s)
      in if needs_quotes s \<or> (s = [] \<and> quote_empty)
         then [writer_quotechar] @ body @ [writer_quotechar] else body)"

fun join_fields :: "bool \<Rightarrow> string list \<Rightarrow> string" where
  "join_fields quote_empty [] = []"
| "join_fields quote_empty [f] = join_append quote_empty f"
| "join_fields quote_empty (f # g # fs) =
     join_append quote_empty f @ [delimiter] @ join_fields quote_empty (g # fs)"

definition writerow :: "string list \<Rightarrow> string" where
  "writerow row = join_fields (length row = 1) row @ [CR, LF]"

text \<open>
  \<^verbatim>\<open>open(file, "w", newline="", encoding="utf-8")\<close> raises where the path cannot be
  opened for writing, and leaves the files alone then; otherwise it creates the file or
  empties it. What is written afterwards is appended, the line ends as they are.
\<close>

definition open_write :: "string \<Rightarrow> 'a world \<Rightarrow> py_error + 'a world" where
  "open_write file w =
     (case write_errors w file of
        Some e \<Rightarrow> Inl e
      | None \<Rightarrow> Inr (w\<lparr>files := (files w)(file \<mapsto> [])\<rparr>))"

definition file_write :: "string \<Rightarrow> string \<Rightarrow> 'a world \<Rightarrow> 'a world" where
  "file_write file s w =
     w\<lparr>files := (files w)(file \<mapsto> (case files w file of None \<Rightarrow> [] | Some t \<Rightarrow> t) @ s)\<rparr>"

subsection \<open>Reading\<close>

text \<open>
  \<^verbatim>\<open>open(file, encoding="utf-8")\<close> reads with universal newlines: \<^verbatim>\<open>"\r\n"\<close> and
  \<^verbatim>\<open>"\r"\<close> arrive as \<^verbatim>\<open>"\n"\<close>, and iterating over the file gives its lines, each
  with its \<^verbatim>\<open>"\n"\<close> (the last one may lack it).
\<close>

fun universal_newlines :: "string \<Rightarrow> string" where
  "universal_newlines [] = []"
| "universal_newlines [c] = (if c = CR then [LF] else [c])"
| "universal_newlines (c # d # s) =
     (if c = CR \<and> d = LF then LF # universal_newlines s
      else if c = CR then LF # universal_newlines (d # s)
      else c # universal_newlines (d # s))"

fun readlines :: "string \<Rightarrow> string list" where
  "readlines [] = []"
| "readlines (c # s) =
     (if c = LF then [c] # readlines s
      else (case readlines s of [] \<Rightarrow> [[c]] | l # ls \<Rightarrow> (c # l) # ls))"

text \<open>
  \<^verbatim>\<open>csv.reader(csv_file, delimiter=",")\<close>: the state machine of the reader for the
  default dialect (quote character \<^verbatim>\<open>"\<close>, doubled quotes, no escape character, spaces
  kept, not strict). The states reached only through an escape character are left out.
  A field longer than the field size limit raises \<^verbatim>\<open>csv.Error\<close>, and so does a
  character other than a line end after a line end inside a line.
\<close>

definition reader_quotechar :: char where "reader_quotechar = CHR 0x22"

definition field_limit :: int where "field_limit = 131072"

datatype parser_state =
  START_RECORD | START_FIELD | IN_FIELD | IN_QUOTED_FIELD | QUOTE_IN_QUOTED_FIELD | EAT_CRNL

record reader =
  state :: parser_state
  field :: string
  parsed :: "string list"

definition parse_reset :: reader where
  "parse_reset = \<lparr>state = START_RECORD, field = [], parsed = []\<rparr>"

definition parse_save_field :: "reader \<Rightarrow> reader" where
  "parse_save_field r = r\<lparr>parsed := parsed r @ [field r], field := []\<rparr>"

definition parse_add_char :: "reader \<Rightarrow> char \<Rightarrow> py_error + reader" where
  "parse_add_char r c =
     (if field_limit \<le> int (length (field r)) then Inl CsvError
      else Inr (r\<lparr>field := field r @ [c]\<rparr>))"

text \<open>One character, or the end of the line (\<open>None\<close>), in the state \<open>START_FIELD\<close>.\<close>

fun start_field :: "reader \<Rightarrow> char option \<Rightarrow> py_error + reader" where
  "start_field r None = Inr ((parse_save_field r)\<lparr>state := START_RECORD\<rparr>)"
| "start_field r (Some c) =
     (if c = LF \<or> c = CR then Inr ((parse_save_field r)\<lparr>state := EAT_CRNL\<rparr>)
      else if c = reader_quotechar then Inr (r\<lparr>state := IN_QUOTED_FIELD\<rparr>)
      else if c = delimiter then Inr (parse_save_field r)
      else (case parse_add_char r c of
              Inl e \<Rightarrow> Inl e
            | Inr r' \<Rightarrow> Inr (r'\<lparr>state := IN_FIELD\<rparr>)))"

fun in_field :: "reader \<Rightarrow> char option \<Rightarrow> py_error + reader" where
  "in_field r None = Inr ((parse_save_field r)\<lparr>state := START_RECORD\<rparr>)"
| "in_field r (Some c) =
     (if c = LF \<or> c = CR then Inr ((parse_save_field r)\<lparr>state := EAT_CRNL\<rparr>)
      else if c = delimiter then Inr ((parse_save_field r)\<lparr>state := START_FIELD\<rparr>)
      else parse_add_char r c)"

fun in_quoted_field :: "reader \<Rightarrow> char option \<Rightarrow> py_error + reader" where
  "in_quoted_field r None = Inr r"
| "in_quoted_field r (Some c) =
     (if c = reader_quotechar then Inr (r\<lparr>state := QUOTE_IN_QUOTED_FIELD\<rparr>)
      else parse_add_char r c)"

fun quote_in_quoted_field :: "reader \<Rightarrow> char option \<Rightarrow> py_error + reader" where
  "quote_in_quoted_field r None = Inr ((parse_save_field r)\<lparr>state := START_RECORD\<rparr>)"
| "quote_in_quoted_field r (Some c) =
     (if c = reader_quotechar then
        (case parse_add_char r c of
           Inl e \<Rightarrow> Inl e
         | Inr r' \<Rightarrow> Inr (r'\<lparr>state := IN_QUOTED_FIELD\<rparr>))
      else if c = delimiter then Inr ((parse_save_field r)\<lparr>state := START_FIELD\<rparr>)
      else if c = LF \<or> c = CR then Inr ((parse_save_field r)\<lparr>state := EAT_CRNL\<rparr>)
      else (case parse_add_char r c of
              Inl e \<Rightarrow> Inl e
            | Inr r' \<Rightarrow> Inr (r'\<lparr>state := IN_FIELD\<rparr>)))"

fun eat_crnl :: "reader \<Rightarrow> char option \<Rightarrow> py_error + reader" where
  "eat_crnl r None = Inr (r\<lparr>state := START_RECORD\<rparr>)"
| "eat_crnl r (Some c) = (if c = LF \<or> c = CR then Inr r else Inl CsvError)"

fun start_record :: "reader \<Rightarrow> char option \<Rightarrow> py_error + reader" where
  "start_record r None = Inr r"
| "start_record r (Some c) =
     (if c = LF \<or> c = CR then Inr (r\<lparr>state := EAT_CRNL\<rparr>)
      else start_field (r\<lparr>state := START_FIELD\<rparr>) (Some c))"

definition parse_process_char :: "reader \<Rightarrow> char option \<Rightarrow> py_error + reader" where
  "parse_process_char r c =
     (case state r of
        START_RECORD \<Rightarrow> start_record r c
      | START_FIELD \<Rightarrow> start_field r c
      | IN_FIELD \<Rightarrow> in_field r c
      | IN_QUOTED_FIELD \<Rightarrow> in_quoted_field r c
      | QUOTE_IN_QUOTED_FIELD \<Rightarrow> quote_in_quoted_field r c
      | EAT_CRNL \<Rightarrow> eat_crnl r c)"

fun process_chars :: "reader \<Rightarrow> string \<Rightarrow> py_error + reader" where
  "process_chars r [] = Inr r"
| "process_chars r (c # cs) =
     (case parse_process_char r (Some c) of
        Inl e \<Rightarrow> Inl e
      | Inr r' \<Rightarrow> process_chars r' cs)"

definition process_line :: "reader \<Rightarrow> string \<Rightarrow> py_error + reader" where
  "process_line r l =
     (case process_chars r l of
        Inl e \<Rightarrow> Inl e
      | Inr r' \<Rightarrow> parse_process_char r' None)"

text \<open>
  The rows the reader yields from the lines, in order, and the exception that ends the
  iteration if there is one. A row is complete when a line leaves the machine in
  \<open>START_RECORD\<close>; the reader starts every row from \<open>parse_reset\<close>. When the lines
  run out inside a quoted field, what was read so far is the last row.
\<close>

fun reader_rows :: "reader \<Rightarrow> string list \<Rightarrow> string list list \<times> py_error option" where
  "reader_rows r [] =
     (if field r \<noteq> [] \<or> state r = IN_QUOTED_FIELD
      then ([parsed (parse_save_field r)], None) else ([], None))"
| "reader_rows r (l # ls) =
     (case process_line r l of
        Inl e \<Rightarrow> ([], Some e)
      | Inr r' \<Rightarrow>
          if state r' = START_RECORD
          then (case reader_rows parse_reset ls of (rows, err) \<Rightarrow> (parsed r' # rows, err))
          else reader_rows r' ls)"

definition csv_reader :: "string \<Rightarrow> string list list \<times> py_error option" where
  "csv_reader text = reader_rows parse_reset (readlines (universal_newlines text))"

section \<open>Data processing\<close>

subsection \<open>\<^verbatim>\<open>dump_market_data_to_file\<close>\<close>

text \<open>
  \<open>str_of\<close> is the text the writer produces for a value of a candle (Python's
  \<^verbatim>\<open>str\<close>); a key is written as it is. The loop over \<^verbatim>\<open>candles\<close> writes one row
  per candle, the values in the candle's own order.
\<close>

fun write_lines :: "('v \<Rightarrow> string) \<Rightarrow> string \<Rightarrow> 'v candle list \<Rightarrow> 'a world \<Rightarrow> 'a world" where
  "write_lines str_of file [] w = w"
| "write_lines str_of file (line # rest) w =
     write_lines str_of file rest (file_write file (writerow (map (\<lambda>kv. str_of (snd kv)) line)) w)"

text \<open>
  The \<^verbatim>\<open>with open(...)\<close> block: the file is opened (and emptied) first, which may
  raise; then \<^verbatim>\<open>candles[0]\<close> is read, which raises \<^verbatim>\<open>IndexError\<close> on an empty
  sequence.
\<close>

definition write_candles ::
  "('v \<Rightarrow> string) \<Rightarrow> string \<Rightarrow> 'v candle list \<Rightarrow> 'a world \<Rightarrow> (py_error + unit) \<times> 'a world" where
  "write_candles str_of file candles w =
     (let w0 = log_event (Open_write file) w
      in case open_write file w0 of
           Inl e \<Rightarrow> (Inl e, w0)
         | Inr w1 \<Rightarrow>
             (case candles of
                [] \<Rightarrow> (Inl IndexError, w1)
              | c0 # _ \<Rightarrow>
                  (Inr (),
                   write_lines str_of file candles
                     (file_write file (writerow (map fst c0)) w1))))"

definition dump_market_data_to_file ::
  "('a, 'v) exchange_class \<Rightarrow> ('v \<Rightarrow> string) \<Rightarrow> string \<Rightarrow> string \<Rightarrow> string \<Rightarrow> 'a option
     \<Rightarrow> string option \<Rightarrow> string option \<Rightarrow> 'a world \<Rightarrow> (py_error + unit) \<times> 'a world" where
  "dump_market_data_to_file cls str_of symbol interval file amount start endt w =
     (case amount of
        Some a \<Rightarrow>
          (case get_last_candles_method cls symbol interval a
                  (log_event (Get_last_candles symbol interval a) w) of
             (Inl e, w1) \<Rightarrow> (Inl e, w1)
           | (Inr candles, w1) \<Rightarrow> write_candles str_of file candles w1)
      | None \<Rightarrow>
          (case start of
             Some s \<Rightarrow>
               (case get_candles_method cls symbol interval s endt
                       (log_event (Get_candles symbol interval s endt) w) of
                  (Inl e, w1) \<Rightarrow> (Inl e, w1)
                | (Inr candles, w1) \<Rightarrow> write_candles str_of file candles w1)
           | None \<Rightarrow> (Inr (), print ''ERROR: Wrong paramaters. Provide amount or start'' w)))"

subsection \<open>\<^verbatim>\<open>load_market_data_file\<close>\<close>

text \<open>
  \<open>float_of\<close> is Python's \<^verbatim>\<open>float\<close> on a string, \<open>None\<close> where it raises
  \<^verbatim>\<open>ValueError\<close>. \<^verbatim>\<open>float(row[i])\<close> raises \<^verbatim>\<open>IndexError\<close> when the row has no
  column \<open>i\<close>.
\<close>

definition float_cell :: "(string \<Rightarrow> 'f option) \<Rightarrow> string list \<Rightarrow> nat \<Rightarrow> py_error + 'f" where
  "float_cell float_of row i =
     (if i < length row
      then (case float_of (row ! i) of None \<Rightarrow> Inl ValueError | Some v \<Rightarrow> Inr v)
      else Inl IndexError)"

definition then_do :: "py_error + 'x \<Rightarrow> ('x \<Rightarrow> py_error + 'y) \<Rightarrow> py_error + 'y" where
  "then_do m f = (case m of Inl e \<Rightarrow> Inl e | Inr v \<Rightarrow> f v)"

text \<open>The dictionary built for one row, its five entries evaluated in the order written.\<close>

definition row_candle :: "(string \<Rightarrow> 'f option) \<Rightarrow> string list \<Rightarrow> py_error + 'f candle" where
  "row_candle float_of row =
     then_do (float_cell float_of row 0) (\<lambda>v0.
     then_do (float_cell float_of row 1) (\<lambda>v1.
     then_do (float_cell float_of row 2) (\<lambda>v2.
     then_do (float_cell float_of row 3) (\<lambda>v3.
     then_do (float_cell float_of row 4) (\<lambda>v4.
       Inr [(''ts'', v0), (''open'', v1), (''high'', v2), (''low'', v3), (''close'', v4)])))))"

text \<open>
  The loop \<^verbatim>\<open>for row in csv_reader\<close> over the rows the reader yields, with the
  exception of the reader (if any) raised once these rows are used up.
\<close>

fun load_rows ::
  "(string \<Rightarrow> 'f option) \<Rightarrow> string list list \<Rightarrow> py_error option \<Rightarrow> nat \<Rightarrow> 'f candle list
     \<Rightarrow> py_error + 'f candle list" where
  "load_rows float_of [] err line_count candles =
     (case err of Some e \<Rightarrow> Inl e | None \<Rightarrow> Inr candles)"
| "load_rows float_of (row # rows) err line_count candles =
     (if line_count \<noteq> 0
      then (case row_candle float_of row of
              Inl e \<Rightarrow> Inl e
            | Inr temp \<Rightarrow> load_rows float_of rows err (line_count + 1) (candles @ [temp]))
      else load_rows float_of rows err (line_count + 1) candles)"

text \<open>What the function returns: the integer \<^verbatim>\<open>-1\<close> or a tuple of candles.\<close>

datatype 'f py_value = PyInt int | PyTuple "'f candle list"

definition load_market_data_file ::
  "(string \<Rightarrow> 'f option) \<Rightarrow> string \<Rightarrow> 'a world \<Rightarrow> (py_error + 'f py_value) \<times> 'a world" where
  "load_market_data_file float_of file w =
     (if str_find file ''.csv'' = - 1
      then (Inr (PyInt (- 1)), print ''ERROR: Please provide .csv file'' w)
      else
        (let w1 = log_event (Open_read file) w
         in case files w file of
              None \<Rightarrow> (Inl FileNotFoundError, w1)
            | Some text \<Rightarrow>
                (case csv_reader text of
                   (rows, err) \<Rightarrow>
                     (case load_rows float_of rows err 0 [] of
                        Inl e \<Rightarrow> (Inl e, w1)
                      | Inr candles \<Rightarrow> (Inr (PyTuple candles), w1)))))"

section \<open>What the specification speaks of\<close>

text \<open>
  A data row is malformed when it has fewer than five columns or one of its first five
  columns is not a floating-point literal; otherwise it is loadable: it has five columns
  or more and the first five are floating-point literals. The record of a row has the
  five keys in the fixed order, bound to the floats of columns 0 to 4.
\<close>

definition malformed :: "(string \<Rightarrow> 'f option) \<Rightarrow> string list \<Rightarrow> bool" where
  "malformed float_of row =
     (length row < 5 \<or> list_ex (\<lambda>c. float_of c = None) (take 5 row))"

definition loadable :: "(string \<Rightarrow> 'f option) \<Rightarrow> string list \<Rightarrow> bool" where
  "loadable float_of row =
     (5 \<le> length row \<and> list_all (\<lambda>c. float_of c \<noteq> None) (take 5 row))"

definition parsed_record :: "(string \<Rightarrow> 'f option) \<Rightarrow> string list \<Rightarrow> 'f candle" where
  "parsed_record float_of row =
     [(''ts'', the (float_of (row ! 0))), (''open'', the (float_of (row ! 1))),
      (''high'', the (float_of (row ! 2))), (''low'', the (float_of (row ! 3))),
      (''close'', the (float_of (row ! 4)))]"

text \<open>
  A field is plain when it holds no delimiter, no quote character of the writer or of the
  reader and no line end: the writer leaves such a field as it is. A row of plain fields
  within the field size limit, other than the empty row and the row of one empty field, is
  written as its fields joined by commas.
\<close>

definition plain :: "string \<Rightarrow> bool" where
  "plain s =
     (delimiter \<notin> set s \<and> writer_quotechar \<notin> set s \<and> reader_quotechar \<notin> set s
      \<and> CR \<notin> set s \<and> LF \<notin> set s)"

definition plain_row :: "string list \<Rightarrow> bool" where
  "plain_row row =
     (row \<noteq> [] \<and> row \<noteq> [[]]
      \<and> list_all (\<lambda>f. plain f \<and> int (length f) \<le> field_limit) row)"

fun joined :: "string list \<Rightarrow> string" where
  "joined [] = []"
| "joined [f] = f"
| "joined (f # g # fs) = f @ [delimiter] @ joined (g # fs)"

text \<open>
  The candles of the round trip have exactly the keys \<^verbatim>\<open>ts, open, high, low, close\<close>,
  in this order. A value \<open>v\<close> is written as the text \<open>str_of v\<close>, which
  \<^verbatim>\<open>float\<close> reads back as \<open>reread v\<close>: the same float where printing and parsing
  are exact, the nearest one otherwise.
\<close>

definition five_keys :: "string list" where
  "five_keys = [''ts'', ''open'', ''high'', ''low'', ''close'']"

definition has_five_keys :: "'v candle \<Rightarrow> bool" where
  "has_five_keys c = (map fst c = five_keys)"

definition float_text :: "('v \<Rightarrow> string) \<Rightarrow> (string \<Rightarrow> 'f option) \<Rightarrow> ('v \<Rightarrow> 'f) \<Rightarrow> 'v \<Rightarrow> bool" where
  "float_text str_of float_of reread v =
     (plain (str_of v) \<and> int (length (str_of v)) \<le> field_limit
      \<and> float_of (str_of v) = Some (reread v))"

definition reread_candle :: "('v \<Rightarrow> 'f) \<Rightarrow> 'v candle \<Rightarrow> 'f candle" where
  "reread_candle reread c = map (\<lambda>kv. (fst kv, reread (snd kv))) c"

section \<open>Concrete inputs\<close>

text \<open>
  What \<^verbatim>\<open>str.lower()\<close> does on ASCII text, for the names of the concrete inputs: the
  letters A to Z move to a to z, every other character stays.
\<close>

definition ascii_lower_char :: "char \<Rightarrow> char" where
  "ascii_lower_char c =
     (if 65 \<le> (of_char c :: nat) \<and> (of_char c :: nat) \<le> 90
      then char_of ((of_char c :: nat) + 32) else c)"

definition ascii_lower :: "string \<Rightarrow> string" where
  "ascii_lower s = map ascii_lower_char s"

text \<open>
  A class whose two retrieval methods return a given sequence of candles, a world with
  given files in which every path can be opened for writing, and whole numbers as the
  values of candles: written as Python writes a whole float (\<^verbatim>\<open>12.0\<close>) and read back
  from such a literal or from plain digits.
\<close>

definition fixed_class :: "'v candle list \<Rightarrow> ('a, 'v) exchange_class" where
  "fixed_class candles =
     \<lparr>get_last_candles_method = (\<lambda>symbol interval amount w. (Inr candles, w)),
      get_candles_method = (\<lambda>symbol interval start endt w. (Inr candles, w))\<rparr>"

definition new_world :: "(string \<rightharpoonup> string) \<Rightarrow> nat world" where
  "new_world fs =
     \<lparr>self = ExchangeAPI_init ascii_lower ''Binance'' ''key'' ''secret'' None,
      files = fs, write_errors = Map.empty, stdout = [], trace = []\<rparr>"

fun decimal :: "nat \<Rightarrow> string" where
  "decimal n =
     (if n < 10 then [char_of (48 + n)] else decimal (n div 10) @ [char_of (48 + n mod 10)])"

definition is_digit :: "char \<Rightarrow> bool" where
  "is_digit c = (48 \<le> (of_char c :: nat) \<and> (of_char c :: nat) \<le> 57)"

definition whole_str :: "nat \<Rightarrow> string" where
  "whole_str n = decimal n @ ''.0''"

definition whole_float :: "string \<Rightarrow> nat option" where
  "whole_float s =
     (let d = takeWhile is_digit s; rest = dropWhile is_digit s
      in if d \<noteq> [] \<and> (rest = [] \<or> rest = ''.0'')
         then Some (foldl (\<lambda>n c. 10 * n + ((of_char c :: nat) - 48)) 0 d) else None)"

text \<open>
  The texts of files: a data row of four columns; two good rows; a header alone; a first
  line that opens a quoted field and never closes it, before a good row; a header and a
  row of seven columns; one line of one character more than the field size limit.
\<close>

definition short_row_text :: string where
  "short_row_text =
     ''ts,open,high,low,close'' @ [LF] @ ''1,10,12,9,11'' @ [LF] @ ''2,11,13,10'' @ [LF]"

definition two_rows_text :: string where
  "two_rows_text =
     ''any,header'' @ [LF] @ ''1,10,12,9,11'' @ [LF] @ ''2,11,13,10,12.0'' @ [LF]"

definition header_text :: string where
  "header_text = ''ts,open,high,low,close'' @ [LF]"

definition quoted_header_text :: string where
  "quoted_header_text =
     [reader_quotechar] @ ''ts,open,high,low,close'' @ [LF] @ ''1,10,12,9,11'' @ [LF]"

definition seven_columns_text :: string where
  "seven_columns_text =
     ''ts,open,high,low,close,volume,trades'' @ [LF] @ ''1,10,12,9,11,500,7'' @ [LF]"

definition long_line_text :: string where
  "long_line_text = replicate 131073 (CHR ''a'')"

text \<open>Two candles with the five keys in the order of the loaded records.\<close>

definition two_candles :: "nat candle list" where
  "two_candles =
     [[(''ts'', 1), (''open'', 10), (''high'', 12), (''low'', 9), (''close'', 11)],
      [(''ts'', 2), (''open'', 11), (''high'', 13), (''low'', 10), (''close'', 12)]]"

section \<open>Searching and lowering strings\<close>

lemma startswith_iff: "startswith s sub \<longleftrightarrow> (\<exists>t. s = sub @ t)"
  by (induction s sub rule: startswith.induct) auto

lemma endswith_iff: "endswith s suffix \<longleftrightarrow> (\<exists>t. s = t @ suffix)"
proof
  assume "endswith s suffix"
  then obtain t where "rev s = rev suffix @ t" by (auto simp: endswith_def startswith_iff)
  then have "rev (rev s) = rev (rev suffix @ t)" by simp
  then have "s = rev t @ suffix" by simp
  then show "\<exists>t. s = t @ suffix" by blast
next
  assume "\<exists>t. s = t @ suffix"
  then show "endswith s suffix" by (auto simp: endswith_def startswith_iff)
qed

lemma str_find_lower_bound: "- 1 \<le> str_find s sub"
  by (induction s) (auto simp: Let_def)

lemma str_find_absent: "str_find s sub = - 1 \<longleftrightarrow> \<not> (\<exists>a b. s = a @ sub @ b)"
proof (induction s)
  case Nil
  then show ?case by (cases sub) auto
next
  case (Cons d s)
  show ?case
  proof (cases "startswith (d # s) sub")
    case True
    then obtain t where "d # s = sub @ t" by (auto simp: startswith_iff)
    then have "d # s = [] @ sub @ t" by simp
    then have "\<exists>a b. d # s = a @ sub @ b" by blast
    with True show ?thesis by simp
  next
    case False
    have "(\<exists>a b. d # s = a @ sub @ b) \<longleftrightarrow> (\<exists>a b. s = a @ sub @ b)"
    proof
      assume "\<exists>a b. d # s = a @ sub @ b"
      then obtain a b where ab: "d # s = a @ sub @ b" by blast
      show "\<exists>a b. s = a @ sub @ b"
      proof (cases a)
        case Nil
        with ab False show ?thesis by (auto simp: startswith_iff)
      next
        case (Cons x a')
        with ab have "s = a' @ sub @ b" by simp
        then show ?thesis by blast
      qed
    next
      assume "\<exists>a b. s = a @ sub @ b"
      then obtain a b where "s = a @ sub @ b" by blast
      then have "d # s = (d # a) @ sub @ b" by simp
      then show "\<exists>a b. d # s = a @ sub @ b" by blast
    qed
    moreover from str_find_lower_bound[of s sub]
    have "str_find (d # s) sub = - 1 \<longleftrightarrow> str_find s sub = - 1"
      using False by (auto simp: Let_def)
    ultimately show ?thesis using Cons.IH by simp
  qed
qed

lemma endswith_found:
  assumes "endswith s sub"
  shows "str_find s sub \<noteq> - 1"
proof -
  from assms obtain t where "s = t @ sub @ []" by (auto simp: endswith_iff)
  then have "\<exists>a b. s = a @ sub @ b" by blast
  then show ?thesis by (simp add: str_find_absent)
qed

lemma ascii_lower_idem: "ascii_lower (ascii_lower s) = ascii_lower s"
proof -
  have "ascii_lower_char (ascii_lower_char c) = ascii_lower_char c" for c
    by (simp add: ascii_lower_char_def)
  then show ?thesis by (simp add: ascii_lower_def)
qed

section \<open>How the operations change the world\<close>

lemma print_fields [simp]:
  "self (print s w) = self w" "files (print s w) = files w"
  "write_errors (print s w) = write_errors w"
  "trace (print s w) = trace w" "stdout (print s w) = stdout w @ [s]"
  by (simp_all add: print_def)

lemma log_event_fields [simp]:
  "self (log_event e w) = self w" "files (log_event e w) = files w"
  "write_errors (log_event e w) = write_errors w"
  "trace (log_event e w) = trace w @ [e]" "stdout (log_event e w) = stdout w"
  by (simp_all add: log_event_def)

lemma open_write_fields:
  assumes "open_write file w = Inr w1"
  shows "self w1 = self w" and "files w1 = (files w)(file \<mapsto> [])"
    and "trace w1 = trace w" and "stdout w1 = stdout w"
    and "write_errors w file = None"
  using assms by (auto simp: open_write_def split: option.splits)

lemma open_write_opens:
  assumes "write_errors w file = None"
  shows "open_write file w = Inr (w\<lparr>files := (files w)(file \<mapsto> [])\<rparr>)"
  using assms by (simp add: open_write_def)

lemma open_write_raises:
  assumes "write_errors w file = Some e"
  shows "open_write file w = Inl e"
  using assms by (simp add: open_write_def)

lemma file_write_fields [simp]:
  "self (file_write file s w) = self w"
  "trace (file_write file s w) = trace w"
  "stdout (file_write file s w) = stdout w"
  by (simp_all add: file_write_def)

lemma write_lines_fields [simp]:
  "self (write_lines str_of file cs w) = self w"
  "trace (write_lines str_of file cs w) = trace w"
  "stdout (write_lines str_of file cs w) = stdout w"
  by (induction cs arbitrary: w) simp_all

lemma write_candles_self: "self (snd (write_candles str_of file cs w)) = self w"
  by (cases "write_errors w file")
     (simp_all add: write_candles_def Let_def open_write_def split: list.splits)

lemma load_self: "self (snd (load_market_data_file float_of file w)) = self w"
  by (simp add: load_market_data_file_def Let_def split: option.splits prod.splits sum.splits)

lemma dump_self:
  assumes "\<And>s i a v. self (snd (get_last_candles_method cls s i a v)) = self v"
    and "\<And>s i st e v. self (snd (get_candles_method cls s i st e v)) = self v"
  shows "self (snd (dump_market_data_to_file cls str_of symbol interval file amount start endt w))
         = self w"
proof (cases amount)
  case (Some a)
  obtain r w1 where c: "get_last_candles_method cls symbol interval a
      (log_event (Get_last_candles symbol interval a) w) = (r, w1)"
    by (cases "get_last_candles_method cls symbol interval a
      (log_event (Get_last_candles symbol interval a) w)")
  from assms(1)[of symbol interval a "log_event (Get_last_candles symbol interval a) w"] c
  have "self w1 = self w" by simp
  with Some c show ?thesis
    by (cases r) (simp_all add: dump_market_data_to_file_def write_candles_self)
next
  case None
  show ?thesis
  proof (cases start)
    case (Some s)
    obtain r w1 where c: "get_candles_method cls symbol interval s endt
        (log_event (Get_candles symbol interval s endt) w) = (r, w1)"
      by (cases "get_candles_method cls symbol interval s endt
        (log_event (Get_candles symbol interval s endt) w)")
    from assms(2)[of symbol interval s endt "log_event (Get_candles symbol interval s endt) w"] c
    have "self w1 = self w" by simp
    with Some None c show ?thesis
      by (cases r) (simp_all add: dump_market_data_to_file_def write_candles_self)
  next
    case n: None
    with None show ?thesis by (simp add: dump_market_data_to_file_def)
  qed
qed

section \<open>The unimplemented operations\<close>

text \<open>
  Claim C8. Each of the ten operations of \<^verbatim>\<open>ExchangeAPI\<close> that a subclass has to
  supply (\<^verbatim>\<open>get_all_balances\<close>, \<^verbatim>\<open>get_balance\<close>, \<^verbatim>\<open>get_available_markets\<close>,
  \<^verbatim>\<open>get_coin_price\<close>, \<^verbatim>\<open>get_coins_prices\<close>, \<^verbatim>\<open>get_order_book\<close>,
  \<^verbatim>\<open>withdraw_asset\<close>, \<^verbatim>\<open>create_order\<close>, \<^verbatim>\<open>get_candles\<close>,
  \<^verbatim>\<open>get_last_candles\<close>) raises \<^verbatim>\<open>NotImplementedError\<close> on the base class for
  every input and leaves the world unchanged, also when it is reached through dispatch;
  this exception is none of the other exceptions of the module.
\<close>

theorem unimplemented_operations_raise:
  "get_all_balances w = (Inl NotImplementedError, w)
   \<and> get_balance coin w = (Inl NotImplementedError, w)
   \<and> get_available_markets w = (Inl NotImplementedError, w)
   \<and> get_coin_price nm pair w = (Inl NotImplementedError, w)
   \<and> get_coins_prices w = (Inl NotImplementedError, w)
   \<and> get_order_book market side w = (Inl NotImplementedError, w)
   \<and> withdraw_asset asset target_addr amount w = (Inl NotImplementedError, w)
   \<and> create_order market side price quantity w = (Inl NotImplementedError, w)
   \<and> get_candles symbol interval start endt w = (Inl NotImplementedError, w)
   \<and> get_last_candles symbol interval a w = (Inl NotImplementedError, w)
   \<and> get_candles_method base_class symbol interval start endt w = (Inl NotImplementedError, w)
   \<and> get_last_candles_method base_class symbol interval a w = (Inl NotImplementedError, w)
   \<and> NotImplementedError \<notin>
       {IndexError, ValueError, FileNotFoundError, IsADirectoryError, PermissionError, CsvError}"
  by (simp add: get_all_balances_def get_balance_def get_available_markets_def
      get_coin_price_def get_coins_prices_def get_order_book_def withdraw_asset_def
      create_order_def get_candles_def get_last_candles_def base_class_def)

section \<open>Dumping\<close>

text \<open>
  Claim C3. When both \<^verbatim>\<open>amount\<close> and \<^verbatim>\<open>start\<close> are \<^verbatim>\<open>None\<close>,
  \<^verbatim>\<open>dump_market_data_to_file\<close> reports the missing selection (it prints the error line
  and returns) whatever the class of the object is: neither retrieval method is called, no
  file is opened, and the files are what they were.
\<close>

theorem missing_selection:
  "dump_market_data_to_file cls str_of symbol interval file None None endt w =
     (Inr (), print ''ERROR: Wrong paramaters. Provide amount or start'' w)
   \<and> files (snd (dump_market_data_to_file cls str_of symbol interval file None None endt w))
       = files w
   \<and> trace (snd (dump_market_data_to_file cls str_of symbol interval file None None endt w))
       = trace w
   \<and> stdout (snd (dump_market_data_to_file cls str_of symbol interval file None None endt w))
       = stdout w @ [''ERROR: Wrong paramaters. Provide amount or start'']"
  by (simp add: dump_market_data_to_file_def)

text \<open>
  Claim C7. With an amount, the candles written are those of
  \<^verbatim>\<open>get_last_candles(symbol, interval, amount)\<close>, whatever \<^verbatim>\<open>start\<close> is, and
  \<^verbatim>\<open>get_candles\<close> plays no part: replacing it changes nothing. Without an amount and
  with a start, they are those of \<^verbatim>\<open>get_candles(symbol, interval, start, end)\<close>, and
  \<^verbatim>\<open>get_last_candles\<close> plays no part.
\<close>

theorem selection_precedence:
  "dump_market_data_to_file cls str_of symbol interval file (Some a) start endt w =
     (case get_last_candles_method cls symbol interval a
             (log_event (Get_last_candles symbol interval a) w) of
        (Inl e, w1) \<Rightarrow> (Inl e, w1)
      | (Inr candles, w1) \<Rightarrow> write_candles str_of file candles w1)
   \<and> dump_market_data_to_file cls str_of symbol interval file None (Some s) endt w =
     (case get_candles_method cls symbol interval s endt
             (log_event (Get_candles symbol interval s endt) w) of
        (Inl e, w1) \<Rightarrow> (Inl e, w1)
      | (Inr candles, w1) \<Rightarrow> write_candles str_of file candles w1)
   \<and> dump_market_data_to_file (cls\<lparr>get_candles_method := g\<rparr>) str_of symbol interval file
        (Some a) start endt w =
      dump_market_data_to_file cls str_of symbol interval file (Some a) start endt w
   \<and> dump_market_data_to_file (cls\<lparr>get_last_candles_method := h\<rparr>) str_of symbol interval file
        None (Some s) endt w =
      dump_market_data_to_file cls str_of symbol interval file None (Some s) endt w"
  by (simp add: dump_market_data_to_file_def)

lemma write_candles_not_opened:
  assumes "write_errors w file = Some e"
  shows "write_candles str_of file candles w = (Inl e, log_event (Open_write file) w)"
  using assms by (simp add: write_candles_def Let_def open_write_def)

lemma write_candles_empty:
  assumes "write_errors w file = None"
  shows "write_candles str_of file [] w =
         (Inl IndexError, (log_event (Open_write file) w)\<lparr>files := (files w)(file \<mapsto> [])\<rparr>)"
  using assms by (simp add: write_candles_def Let_def open_write_def)

text \<open>
  Claim C5. An empty retrieval is not handled: with a class whose
  \<^verbatim>\<open>get_last_candles\<close> returns the empty sequence, the call raises
  \<^verbatim>\<open>IndexError\<close> at \<^verbatim>\<open>candles[0]\<close>, after the file has been opened and emptied.
\<close>

theorem empty_retrieval_raises:
  "dump_market_data_to_file (fixed_class []) whole_str ''BTC'' ''30m'' ''data.csv''
     (Some 5) None None (new_world Map.empty) =
   (Inl IndexError,
    (new_world Map.empty)\<lparr>files := [''data.csv'' \<mapsto> ''''],
       trace := [Get_last_candles ''BTC'' ''30m'' 5, Open_write ''data.csv'']\<rparr>)"
  by (simp add: dump_market_data_to_file_def fixed_class_def write_candles_def
      open_write_def log_event_def new_world_def Let_def)

section \<open>Loading\<close>

subsection \<open>One row, then the loop\<close>

lemma float_cell_error:
  "float_cell float_of row i = Inl e \<Longrightarrow> e = IndexError \<or> e = ValueError"
  by (auto simp: float_cell_def split: if_splits option.splits)

lemma then_do_Inl:
  "then_do m f = Inl e \<Longrightarrow> m = Inl e \<or> (\<exists>v. m = Inr v \<and> f v = Inl e)"
  by (cases m) (simp_all add: then_do_def)

lemma then_do_simps [simp]:
  "then_do (Inl e) f = Inl e" "then_do (Inr v) f = f v"
  by (simp_all add: then_do_def)

lemma row_candle_error:
  assumes "row_candle float_of row = Inl e"
  shows "e = IndexError \<or> e = ValueError"
proof -
  from assms have "\<exists>i. float_cell float_of row i = Inl e"
    unfolding row_candle_def
    by (blast dest!: then_do_Inl)
  then show ?thesis by (blast dest: float_cell_error)
qed

lemma take5:
  assumes "5 \<le> length row"
  shows "take 5 row = [row ! 0, row ! 1, row ! 2, row ! 3, row ! 4]"
proof -
  from assms obtain a b c d e rest where "row = a # b # c # d # e # rest"
    by (cases row; simp; cases "tl row"; simp; cases "tl (tl row)"; simp;
        cases "tl (tl (tl row))"; simp; cases "tl (tl (tl (tl row)))"; simp)
  then show ?thesis by simp
qed

lemma row_candle_short:
  assumes "length row < 5"
  shows "\<exists>e. row_candle float_of row = Inl e"
proof -
  from assms have 4: "float_cell float_of row 4 = Inl IndexError" by (simp add: float_cell_def)
  show ?thesis
    unfolding row_candle_def
    by (cases "float_cell float_of row 0"; simp;
        cases "float_cell float_of row 1"; simp;
        cases "float_cell float_of row 2"; simp;
        cases "float_cell float_of row 3"; simp add: 4)
qed

lemma row_candle_bad_value:
  assumes "5 \<le> length row" and "i < 5" and "float_of (row ! i) = None"
  shows "\<exists>e. row_candle float_of row = Inl e"
proof -
  from assms have bad: "float_cell float_of row i = Inl ValueError"
    by (simp add: float_cell_def)
  from assms(2) have "i = 0 \<or> i = 1 \<or> i = 2 \<or> i = 3 \<or> i = 4" by arith
  then show ?thesis
  proof (elim disjE)
    assume "i = 0" with bad show ?thesis by (simp add: row_candle_def)
  next
    assume "i = 1" with bad show ?thesis
      unfolding row_candle_def by (cases "float_cell float_of row 0"; simp)
  next
    assume "i = 2" with bad show ?thesis
      unfolding row_candle_def
      by (cases "float_cell float_of row 0"; simp; cases "float_cell float_of row 1"; simp)
  next
    assume "i = 3" with bad show ?thesis
      unfolding row_candle_def
      by (cases "float_cell float_of row 0"; simp; cases "float_cell float_of row 1"; simp;
          cases "float_cell float_of row 2"; simp)
  next
    assume "i = 4" with bad show ?thesis
      unfolding row_candle_def
      by (cases "float_cell float_of row 0"; simp; cases "float_cell float_of row 1"; simp;
          cases "float_cell float_of row 2"; simp; cases "float_cell float_of row 3"; simp)
  qed
qed

lemma row_candle_malformed:
  assumes "malformed float_of row"
  shows "\<exists>e. row_candle float_of row = Inl e"
proof (cases "length row < 5")
  case True
  then show ?thesis by (rule row_candle_short)
next
  case False
  then have len: "5 \<le> length row" by simp
  with assms have "\<exists>c \<in> set [row ! 0, row ! 1, row ! 2, row ! 3, row ! 4]. float_of c = None"
    by (simp add: malformed_def list_ex_iff take5)
  then obtain i where "i < 5" "float_of (row ! i) = None"
    by (auto intro: that[of 0] that[of 1] that[of 2] that[of 3] that[of 4])
  with len show ?thesis by (rule row_candle_bad_value)
qed

lemma row_candle_well_formed:
  assumes "5 \<le> length row" and "list_all (\<lambda>c. float_of c \<noteq> None) (take 5 row)"
  shows "row_candle float_of row = Inr (parsed_record float_of row)"
proof -
  from assms(1) obtain a b c d e rest where row: "row = a # b # c # d # e # rest"
    by (cases row; simp; cases "tl row"; simp; cases "tl (tl row)"; simp;
        cases "tl (tl (tl row))"; simp; cases "tl (tl (tl (tl row)))"; simp)
  with assms(2) obtain va vb vc vd ve where
    "float_of a = Some va" "float_of b = Some vb" "float_of c = Some vc"
    "float_of d = Some vd" "float_of e = Some ve"
    by auto
  with row show ?thesis
    by (simp add: row_candle_def parsed_record_def float_cell_def)
qed

lemma load_rows_malformed:
  assumes "list_ex (malformed float_of) rows" and "line_count \<noteq> 0"
  shows "load_rows float_of rows err line_count candles = Inl IndexError
       \<or> load_rows float_of rows err line_count candles = Inl ValueError"
  using assms
proof (induction rows arbitrary: line_count candles)
  case Nil
  then show ?case by simp
next
  case (Cons row rows)
  show ?case
  proof (cases "row_candle float_of row")
    case (Inl e)
    with Cons.prems row_candle_error[of float_of row e] show ?thesis by auto
  next
    case (Inr temp)
    with row_candle_malformed[of float_of row] have "\<not> malformed float_of row" by auto
    with Cons.prems have "list_ex (malformed float_of) rows" by simp
    from Cons.IH[OF this, of "line_count + 1" "candles @ [temp]"] Inr Cons.prems(2)
    show ?thesis by simp
  qed
qed

lemma load_rows_well_formed:
  assumes "list_all (\<lambda>row. 5 \<le> length row \<and> list_all (\<lambda>c. float_of c \<noteq> None) (take 5 row)) rows"
    and "line_count \<noteq> 0"
  shows "load_rows float_of rows None line_count candles =
         Inr (candles @ map (parsed_record float_of) rows)"
  using assms
proof (induction rows arbitrary: line_count candles)
  case Nil
  then show ?case by simp
next
  case (Cons row rows)
  then have "row_candle float_of row = Inr (parsed_record float_of row)"
    by (simp add: row_candle_well_formed)
  with Cons show ?case by simp
qed

lemma load_market_data_file_opened:
  assumes "str_find file ''.csv'' \<noteq> - 1" and "files w file = Some text"
    and "csv_reader text = (rows, err)"
  shows "load_market_data_file float_of file w =
     (case load_rows float_of rows err 0 [] of
        Inl e \<Rightarrow> (Inl e, log_event (Open_read file) w)
      | Inr candles \<Rightarrow> (Inr (PyTuple candles), log_event (Open_read file) w))"
  using assms by (simp add: load_market_data_file_def Let_def)

text \<open>
  Claim C2. When a row after the first has fewer than five columns, or a value among its
  first five columns that \<^verbatim>\<open>float\<close> rejects, \<^verbatim>\<open>load_market_data_file\<close> returns no
  tuple at all, whatever the path; on a path that passes the check on the name it raises
  \<^verbatim>\<open>IndexError\<close> (too few columns) or \<^verbatim>\<open>ValueError\<close> (not a number), so nothing
  of the rows read before is returned.
\<close>

theorem malformed_row_fails:
  assumes "files w file = Some text"
    and "csv_reader text = (header # rows, err)"
    and "list_ex (malformed float_of) rows"
  shows "(\<forall>candles. fst (load_market_data_file float_of file w) \<noteq> Inr (PyTuple candles))
       \<and> (str_find file ''.csv'' \<noteq> - 1 \<longrightarrow>
            load_market_data_file float_of file w = (Inl IndexError, log_event (Open_read file) w)
          \<or> load_market_data_file float_of file w = (Inl ValueError, log_event (Open_read file) w))"
proof (cases "str_find file ''.csv'' = - 1")
  case True
  then show ?thesis by (simp add: load_market_data_file_def)
next
  case False
  from load_rows_malformed[OF assms(3), of 1 err "[]"]
  have "load_rows float_of (header # rows) err 0 [] = Inl IndexError
      \<or> load_rows float_of (header # rows) err 0 [] = Inl ValueError"
    by simp
  with load_market_data_file_opened[OF False assms(1,2), of float_of] False
  show ?thesis by auto
qed

theorem malformed_row_fails_witness:
  "files (new_world [''x.csv'' \<mapsto> short_row_text]) ''x.csv'' = Some short_row_text
   \<and> csv_reader short_row_text =
       ([''ts'', ''open'', ''high'', ''low'', ''close''] #
        [[''1'', ''10'', ''12'', ''9'', ''11''], [''2'', ''11'', ''13'', ''10'']], None)
   \<and> list_ex (malformed whole_float)
         [[''1'', ''10'', ''12'', ''9'', ''11''], [''2'', ''11'', ''13'', ''10'']]
   \<and> str_find ''x.csv'' ''.csv'' \<noteq> - 1
   \<and> (load_market_data_file whole_float ''x.csv'' (new_world [''x.csv'' \<mapsto> short_row_text])
         = (Inl IndexError,
            log_event (Open_read ''x.csv'') (new_world [''x.csv'' \<mapsto> short_row_text]))
       \<or> load_market_data_file whole_float ''x.csv'' (new_world [''x.csv'' \<mapsto> short_row_text])
         = (Inl ValueError,
            log_event (Open_read ''x.csv'') (new_world [''x.csv'' \<mapsto> short_row_text])))"
proof -
  have h1: "files (new_world [''x.csv'' \<mapsto> short_row_text]) ''x.csv'' = Some short_row_text"
    by (simp add: new_world_def)
  have h2: "csv_reader short_row_text =
       ([''ts'', ''open'', ''high'', ''low'', ''close''] #
        [[''1'', ''10'', ''12'', ''9'', ''11''], [''2'', ''11'', ''13'', ''10'']], None)"
    by code_simp
  have h3: "list_ex (malformed whole_float)
      [[''1'', ''10'', ''12'', ''9'', ''11''], [''2'', ''11'', ''13'', ''10'']]"
    by code_simp
  have h4: "str_find ''x.csv'' ''.csv'' \<noteq> - 1" by code_simp
  from malformed_row_fails[OF h1 h2 h3] h1 h2 h3 h4 show ?thesis by blast
qed

text \<open>
  Claim C6, as the code has it. On a path that passes the check on the name, take a file
  from which the reader yields, without raising, a first row and then rows that are all
  loadable. The first row is skipped whatever it holds, and the result is the tuple of the
  records of the remaining rows, in the order of the file, each with the keys
  \<^verbatim>\<open>ts, open, high, low, close\<close> bound to the floats of columns 0 to 4; what a row
  holds after its fifth column is ignored.
\<close>

theorem loadable_rows_load:
  assumes "str_find file ''.csv'' \<noteq> - 1"
    and "files w file = Some content"
    and "csv_reader content = (header # rows, None)"
    and "list_all (loadable float_of) rows"
  shows "load_market_data_file float_of file w =
           (Inr (PyTuple (map (parsed_record float_of) rows)), log_event (Open_read file) w)"
proof -
  from assms(4)
  have "list_all (\<lambda>row. 5 \<le> length row \<and> list_all (\<lambda>c. float_of c \<noteq> None) (take 5 row)) rows"
    by (simp add: list_all_iff loadable_def)
  from load_rows_well_formed[OF this, of 1 "[]"]
  have "load_rows float_of (header # rows) None 0 [] = Inr (map (parsed_record float_of) rows)"
    by simp
  with load_market_data_file_opened[OF assms(1,2,3), of float_of] show ?thesis by simp
qed

theorem loadable_rows_load_witness:
  "str_find ''x.csv'' ''.csv'' \<noteq> - 1
   \<and> files (new_world [''x.csv'' \<mapsto> two_rows_text]) ''x.csv'' = Some two_rows_text
   \<and> csv_reader two_rows_text =
       ([''any'', ''header''] #
        [[''1'', ''10'', ''12'', ''9'', ''11''], [''2'', ''11'', ''13'', ''10'', ''12.0'']], None)
   \<and> list_all (loadable whole_float)
         [[''1'', ''10'', ''12'', ''9'', ''11''], [''2'', ''11'', ''13'', ''10'', ''12.0'']]
   \<and> fst (load_market_data_file whole_float ''x.csv'' (new_world [''x.csv'' \<mapsto> two_rows_text]))
       = Inr (PyTuple
           [[(''ts'', 1), (''open'', 10), (''high'', 12), (''low'', 9), (''close'', 11)],
            [(''ts'', 2), (''open'', 11), (''high'', 13), (''low'', 10), (''close'', 12)]])"
proof -
  have h1: "str_find ''x.csv'' ''.csv'' \<noteq> - 1" by code_simp
  have h2: "files (new_world [''x.csv'' \<mapsto> two_rows_text]) ''x.csv'' = Some two_rows_text"
    by (simp add: new_world_def)
  have h3: "csv_reader two_rows_text =
       ([''any'', ''header''] #
        [[''1'', ''10'', ''12'', ''9'', ''11''], [''2'', ''11'', ''13'', ''10'', ''12.0'']], None)"
    by code_simp
  have h4: "list_all (loadable whole_float)
         [[''1'', ''10'', ''12'', ''9'', ''11''], [''2'', ''11'', ''13'', ''10'', ''12.0'']]"
    by code_simp
  have h5: "map (parsed_record whole_float)
         [[''1'', ''10'', ''12'', ''9'', ''11''], [''2'', ''11'', ''13'', ''10'', ''12.0'']] =
           [[(''ts'', 1), (''open'', 10), (''high'', 12), (''low'', 9), (''close'', 11)],
            [(''ts'', 2), (''open'', 11), (''high'', 13), (''low'', 10), (''close'', 12)]]"
    by code_simp
  from loadable_rows_load[OF h1 h2 h3 h4] h1 h2 h3 h4 h5 show ?thesis by simp
qed

text \<open>
  The claim as it is worded fails twice. A first line that opens a quoted field is not
  skipped alone: the reader takes the lines after it into the first row, and the good row
  on the second line is not returned. And a row of seven columns is accepted, its first
  five columns read.
\<close>

theorem first_line_and_extra_columns:
  "readlines (universal_newlines quoted_header_text) =
     [[reader_quotechar] @ ''ts,open,high,low,close'' @ [LF], ''1,10,12,9,11'' @ [LF]]
   \<and> fst (load_market_data_file whole_float ''x.csv''
         (new_world [''x.csv'' \<mapsto> quoted_header_text])) = Inr (PyTuple [])
   \<and> fst (csv_reader seven_columns_text) =
       [[''ts'', ''open'', ''high'', ''low'', ''close'', ''volume'', ''trades''],
        [''1'', ''10'', ''12'', ''9'', ''11'', ''500'', ''7'']]
   \<and> fst (load_market_data_file whole_float ''x.csv''
         (new_world [''x.csv'' \<mapsto> seven_columns_text]))
       = Inr (PyTuple
           [[(''ts'', 1), (''open'', 10), (''high'', 12), (''low'', 9), (''close'', 11)]])"
  by code_simp

text \<open>A file from which the reader yields at most one row loads as the empty tuple.\<close>

lemma at_most_one_row_loads_empty:
  assumes "str_find file ''.csv'' \<noteq> - 1"
    and "files w file = Some content"
    and "csv_reader content = (rows, None)"
    and "length rows \<le> 1"
  shows "load_market_data_file float_of file w =
           (Inr (PyTuple []), log_event (Open_read file) w)"
proof -
  from assms(4) have "rows = [] \<or> (\<exists>header. rows = [header])"
    by (cases rows) auto
  then have "load_rows float_of rows None 0 [] = Inr []" by auto
  with load_market_data_file_opened[OF assms(1,2,3), of float_of] show ?thesis by simp
qed

section \<open>Writing, then reading\<close>

subsection \<open>The text of plain rows\<close>

lemma special_chars_distinct:
  "delimiter \<noteq> CR" "delimiter \<noteq> LF" "CR \<noteq> LF" "reader_quotechar \<noteq> delimiter"
  "reader_quotechar \<noteq> CR" "reader_quotechar \<noteq> LF" "writer_quotechar \<noteq> delimiter"
  "CR \<noteq> delimiter" "LF \<noteq> delimiter" "LF \<noteq> CR" "delimiter \<noteq> reader_quotechar"
  "CR \<noteq> reader_quotechar" "LF \<noteq> reader_quotechar"
  by (simp_all add: delimiter_def CR_def LF_def reader_quotechar_def writer_quotechar_def)

lemma join_append_plain:
  assumes "plain f" and "f \<noteq> [] \<or> \<not> quote_empty"
  shows "join_append quote_empty f = f"
proof -
  from assms(1) have "writer_quotechar \<notin> set f" by (simp add: plain_def)
  then have "concat (map (\<lambda>c. if c = writer_quotechar then [c, c] else [c]) f) = f"
    by (induction f) auto
  with assms show ?thesis
    by (auto simp: join_append_def needs_quotes_def plain_def)
qed

lemma join_fields_plain:
  assumes "list_all plain row" and "\<not> quote_empty \<or> [] \<notin> set row"
  shows "join_fields quote_empty row = joined row"
  using assms by (induction row rule: joined.induct) (auto simp: join_append_plain)

lemma writerow_plain:
  assumes "plain_row row"
  shows "writerow row = joined row @ [CR, LF]"
proof -
  from assms have p: "list_all plain row" by (simp add: plain_row_def list_all_iff)
  have "\<not> (length row = 1) \<or> [] \<notin> set row"
  proof (cases row)
    case Nil then show ?thesis by simp
  next
    case (Cons f fs)
    with assms show ?thesis by (cases fs) (auto simp: plain_row_def)
  qed
  with p show ?thesis by (simp add: writerow_def join_fields_plain)
qed

lemma joined_chars:
  assumes "list_all plain row"
  shows "CR \<notin> set (joined row) \<and> LF \<notin> set (joined row)"
  using assms
  by (induction row rule: joined.induct) (auto simp: plain_def special_chars_distinct)

lemma universal_newlines_line:
  assumes "CR \<notin> set l"
  shows "universal_newlines (l @ CR # LF # rest) = l @ LF # universal_newlines rest"
  using assms
proof (induction l)
  case Nil
  then show ?case by simp
next
  case (Cons c l)
  then obtain d s where ds: "l @ CR # LF # rest = d # s" by (cases l) auto
  from Cons.prems have "c \<noteq> CR" by auto
  then have "universal_newlines (c # d # s) = c # universal_newlines (d # s)" by simp
  with ds Cons show ?case by simp
qed

lemma readlines_line:
  assumes "LF \<notin> set l"
  shows "readlines (l @ LF # rest) = (l @ [LF]) # readlines rest"
  using assms by (induction l) auto

lemma universal_newlines_no_CR: "CR \<notin> set (universal_newlines s)"
  by (induction s rule: universal_newlines.induct) (auto simp: special_chars_distinct)

lemma lines_of_written_rows:
  assumes "list_all plain_row rows"
  shows "readlines (universal_newlines (concat (map writerow rows))) =
         map (\<lambda>row. joined row @ [LF]) rows"
  using assms
proof (induction rows)
  case Nil
  then show ?case by simp
next
  case (Cons row rows)
  then have pr: "plain_row row" by simp
  then have p: "list_all plain row" by (simp add: plain_row_def list_all_iff)
  from joined_chars[OF p] have cr: "CR \<notin> set (joined row)" and lf: "LF \<notin> set (joined row)"
    by simp_all
  have "concat (map writerow (row # rows)) = joined row @ CR # LF # concat (map writerow rows)"
    by (simp add: writerow_plain[OF pr])
  then have "universal_newlines (concat (map writerow (row # rows))) =
      joined row @ LF # universal_newlines (concat (map writerow rows))"
    by (simp add: universal_newlines_line[OF cr])
  with Cons show ?case by (simp add: readlines_line[OF lf])
qed

lemma process_chars_append:
  "process_chars r (cs @ ds) =
     (case process_chars r cs of Inl e \<Rightarrow> Inl e | Inr r' \<Rightarrow> process_chars r' ds)"
  by (induction cs arbitrary: r) (auto split: sum.splits)

lemma field_limit_pos: "0 < field_limit"
  by (simp add: field_limit_def)

lemma in_field_chars:
  assumes "delimiter \<notin> set cs" and "CR \<notin> set cs" and "LF \<notin> set cs"
    and "int (length f + length cs) \<le> field_limit"
  shows "process_chars \<lparr>state = IN_FIELD, field = f, parsed = ps\<rparr> cs =
         Inr \<lparr>state = IN_FIELD, field = f @ cs, parsed = ps\<rparr>"
  using assms
proof (induction cs arbitrary: f)
  case Nil
  then show ?case by simp
next
  case (Cons c cs)
  from Cons.prems have "\<not> field_limit \<le> int (length f)" by simp
  moreover from Cons.prems have "c \<noteq> delimiter" "c \<noteq> CR" "c \<noteq> LF" by auto
  ultimately have step: "parse_process_char \<lparr>state = IN_FIELD, field = f, parsed = ps\<rparr> (Some c)
      = Inr \<lparr>state = IN_FIELD, field = f @ [c], parsed = ps\<rparr>"
    by (simp add: parse_process_char_def parse_add_char_def)
  from Cons.prems have "int (length (f @ [c]) + length cs) \<le> field_limit" by simp
  with Cons.IH[of "f @ [c]"] Cons.prems step show ?case by simp
qed

lemma start_field_chars:
  assumes "plain f" and "int (length f) \<le> field_limit"
  shows "process_chars \<lparr>state = START_FIELD, field = [], parsed = ps\<rparr> f =
         Inr \<lparr>state = (if f = [] then START_FIELD else IN_FIELD), field = f, parsed = ps\<rparr>"
proof (cases f)
  case Nil
  then show ?thesis by simp
next
  case (Cons c cs)
  with assms(1) have c: "c \<noteq> LF" "c \<noteq> CR" "c \<noteq> reader_quotechar" "c \<noteq> delimiter"
    and cs: "delimiter \<notin> set cs" "CR \<notin> set cs" "LF \<notin> set cs"
    by (auto simp: plain_def)
  from c have step: "parse_process_char \<lparr>state = START_FIELD, field = [], parsed = ps\<rparr> (Some c)
      = Inr \<lparr>state = IN_FIELD, field = [c], parsed = ps\<rparr>"
    by (simp add: parse_process_char_def parse_add_char_def field_limit_def)
  from assms(2) Cons have "int (length [c] + length cs) \<le> field_limit" by simp
  from in_field_chars[OF cs this, of ps] step Cons show ?thesis by simp
qed

lemma field_then_delimiter:
  assumes "plain f" and "int (length f) \<le> field_limit"
  shows "process_chars \<lparr>state = START_FIELD, field = [], parsed = ps\<rparr> (f @ [delimiter]) =
         Inr \<lparr>state = START_FIELD, field = [], parsed = ps @ [f]\<rparr>"
  by (simp add: process_chars_append start_field_chars[OF assms] parse_process_char_def
      parse_save_field_def special_chars_distinct)

lemma field_then_newline:
  assumes "plain f" and "int (length f) \<le> field_limit"
  shows "process_chars \<lparr>state = START_FIELD, field = [], parsed = ps\<rparr> (f @ [LF]) =
         Inr \<lparr>state = EAT_CRNL, field = [], parsed = ps @ [f]\<rparr>"
  by (simp add: process_chars_append start_field_chars[OF assms] parse_process_char_def
      parse_save_field_def special_chars_distinct)

lemma row_from_start_field:
  assumes "row \<noteq> []" and "list_all (\<lambda>f. plain f \<and> int (length f) \<le> field_limit) row"
  shows "process_chars \<lparr>state = START_FIELD, field = [], parsed = ps\<rparr> (joined row @ [LF]) =
         Inr \<lparr>state = EAT_CRNL, field = [], parsed = ps @ row\<rparr>"
  using assms
proof (induction row arbitrary: ps rule: joined.induct)
  case 1
  then show ?case by simp
next
  case (2 f)
  then show ?case by (simp add: field_then_newline)
next
  case (3 f g fs)
  then have f: "plain f" "int (length f) \<le> field_limit" by simp_all
  have "joined (f # g # fs) @ [LF] = (f @ [delimiter]) @ (joined (g # fs) @ [LF])" by simp
  then have "process_chars \<lparr>state = START_FIELD, field = [], parsed = ps\<rparr>
        (joined (f # g # fs) @ [LF]) =
      process_chars \<lparr>state = START_FIELD, field = [], parsed = ps @ [f]\<rparr>
        (joined (g # fs) @ [LF])"
    using process_chars_append[of "\<lparr>state = START_FIELD, field = [], parsed = ps\<rparr>"
        "f @ [delimiter]" "joined (g # fs) @ [LF]"]
    by (simp only: field_then_delimiter[OF f] sum.case)
  with 3 show ?case by simp
qed

lemma start_record_first:
  assumes "c \<noteq> CR" and "c \<noteq> LF"
  shows "process_chars \<lparr>state = START_RECORD, field = [], parsed = ps\<rparr> (c # cs) =
         process_chars \<lparr>state = START_FIELD, field = [], parsed = ps\<rparr> (c # cs)"
  using assms by (simp add: parse_process_char_def)

lemma joined_first:
  assumes "plain_row row"
  shows "\<exists>c cs. joined row = c # cs \<and> c \<noteq> CR \<and> c \<noteq> LF"
proof -
  from assms have p: "list_all plain row" by (simp add: plain_row_def list_all_iff)
  from assms have "joined row \<noteq> []"
    by (cases row rule: joined.cases) (auto simp: plain_row_def)
  then obtain c cs where "joined row = c # cs" by (cases "joined row") auto
  with joined_chars[OF p] show ?thesis by auto
qed

lemma process_line_row:
  assumes "plain_row row"
  shows "process_line parse_reset (joined row @ [LF]) =
         Inr \<lparr>state = START_RECORD, field = [], parsed = row\<rparr>"
proof -
  from joined_first[OF assms] obtain c cs where j: "joined row = c # cs" "c \<noteq> CR" "c \<noteq> LF"
    by blast
  from assms have r: "row \<noteq> []" "list_all (\<lambda>f. plain f \<and> int (length f) \<le> field_limit) row"
    by (simp_all add: plain_row_def)
  have "process_chars parse_reset (joined row @ [LF]) =
        process_chars \<lparr>state = START_FIELD, field = [], parsed = []\<rparr> (joined row @ [LF])"
    using start_record_first[OF j(2,3), of "[]" "cs @ [LF]"] j(1) by (simp add: parse_reset_def)
  also have "\<dots> = Inr \<lparr>state = EAT_CRNL, field = [], parsed = row\<rparr>"
    using row_from_start_field[OF r, of "[]"] by simp
  finally show ?thesis by (simp add: process_line_def parse_process_char_def)
qed

lemma reader_rows_written:
  assumes "list_all plain_row rows"
  shows "reader_rows parse_reset (map (\<lambda>row. joined row @ [LF]) rows) = (rows, None)"
  using assms
proof (induction rows)
  case Nil
  then show ?case by (simp add: parse_reset_def)
next
  case (Cons row rows)
  then show ?case by (simp add: process_line_row)
qed

lemma csv_reader_written:
  assumes "list_all plain_row rows"
  shows "csv_reader (concat (map writerow rows)) = (rows, None)"
  by (simp add: csv_reader_def lines_of_written_rows[OF assms] reader_rows_written[OF assms])

subsection \<open>The file after a dump\<close>

lemma files_file_write:
  "files (file_write file s w) file = Some ((case files w file of None \<Rightarrow> [] | Some t \<Rightarrow> t) @ s)"
  by (simp add: file_write_def)

lemma files_write_lines:
  assumes "files w file = Some t"
  shows "files (write_lines str_of file cs w) file =
         Some (t @ concat (map (\<lambda>line. writerow (map (\<lambda>kv. str_of (snd kv)) line)) cs))"
  using assms
proof (induction cs arbitrary: w t)
  case Nil
  then show ?case by simp
next
  case (Cons line cs)
  from Cons.prems
  have "files (file_write file (writerow (map (\<lambda>kv. str_of (snd kv)) line)) w) file =
        Some (t @ writerow (map (\<lambda>kv. str_of (snd kv)) line))"
    by (simp add: files_file_write)
  from Cons.IH[OF this] show ?case by simp
qed

lemma write_candles_text:
  assumes "candles = c0 # rest" and "write_errors w file = None"
  shows "fst (write_candles str_of file candles w) = Inr ()"
    and "files (snd (write_candles str_of file candles w)) file =
         Some (concat (map writerow
           (map fst c0 # map (\<lambda>line. map (\<lambda>kv. str_of (snd kv)) line) candles)))"
proof -
  let ?w1 = "(log_event (Open_write file) w)\<lparr>files := (files w)(file \<mapsto> [])\<rparr>"
  from assms(2) have opened: "open_write file (log_event (Open_write file) w) = Inr ?w1"
    by (simp add: open_write_def)
  with assms(1) show "fst (write_candles str_of file candles w) = Inr ()"
    by (simp add: write_candles_def Let_def)
  have "files (file_write file (writerow (map fst c0)) ?w1) file =
        Some (writerow (map fst c0))"
    by (simp add: files_file_write)
  from files_write_lines[OF this, of str_of candles] assms(1) opened
  show "files (snd (write_candles str_of file candles w)) file =
         Some (concat (map writerow
           (map fst c0 # map (\<lambda>line. map (\<lambda>kv. str_of (snd kv)) line) candles)))"
    by (simp add: write_candles_def Let_def o_def)
qed

lemma five_keys_plain_row: "plain_row five_keys"
  by (simp add: plain_row_def five_keys_def plain_def delimiter_def writer_quotechar_def
      reader_quotechar_def CR_def LF_def field_limit_def)

lemma five_entries:
  assumes "has_five_keys c"
  shows "\<exists>v0 v1 v2 v3 v4.
           c = [(''ts'', v0), (''open'', v1), (''high'', v2), (''low'', v3), (''close'', v4)]"
  using assms by (auto simp: has_five_keys_def five_keys_def map_eq_Cons_conv)

lemma data_row_plain:
  assumes "has_five_keys c"
    and "list_all (\<lambda>kv. float_text str_of float_of reread (snd kv)) c"
  shows "plain_row (map (\<lambda>kv. str_of (snd kv)) c)"
proof -
  from five_entries[OF assms(1)] obtain v0 v1 v2 v3 v4 where
    c: "c = [(''ts'', v0), (''open'', v1), (''high'', v2), (''low'', v3), (''close'', v4)]"
    by blast
  with assms(2) show ?thesis by (simp add: plain_row_def float_text_def)
qed

lemma data_row_parsed:
  assumes "has_five_keys c"
    and "list_all (\<lambda>kv. float_text str_of float_of reread (snd kv)) c"
  shows "5 \<le> length (map (\<lambda>kv. str_of (snd kv)) c)"
    and "list_all (\<lambda>x. float_of x \<noteq> None) (take 5 (map (\<lambda>kv. str_of (snd kv)) c))"
    and "parsed_record float_of (map (\<lambda>kv. str_of (snd kv)) c) = reread_candle reread c"
proof -
  from five_entries[OF assms(1)] obtain v0 v1 v2 v3 v4 where
    c: "c = [(''ts'', v0), (''open'', v1), (''high'', v2), (''low'', v3), (''close'', v4)]"
    by blast
  from c show "5 \<le> length (map (\<lambda>kv. str_of (snd kv)) c)" by simp
  from c assms(2)
  show "list_all (\<lambda>x. float_of x \<noteq> None) (take 5 (map (\<lambda>kv. str_of (snd kv)) c))"
    by (simp add: float_text_def)
  from c assms(2)
  show "parsed_record float_of (map (\<lambda>kv. str_of (snd kv)) c) = reread_candle reread c"
    by (simp add: float_text_def parsed_record_def reread_candle_def)
qed

lemma write_then_load:
  fixes str_of :: "'v \<Rightarrow> string"
  assumes "seq \<noteq> []"
    and "list_all has_five_keys seq"
    and "list_all (list_all (\<lambda>kv. float_text str_of float_of reread (snd kv))) seq"
    and "str_find file ''.csv'' \<noteq> - 1"
    and "write_errors w file = None"
  shows "fst (write_candles str_of file seq w) = Inr ()"
    and "load_market_data_file float_of file (snd (write_candles str_of file seq w)) =
         (Inr (PyTuple (map (reread_candle reread) seq)),
          log_event (Open_read file) (snd (write_candles str_of file seq w)))"
proof -
  from assms(1) obtain c0 rest where seq: "seq = c0 # rest" by (cases seq) auto
  let ?data = "map (\<lambda>line. map (\<lambda>kv. str_of (snd kv)) line) seq"
  let ?w2 = "snd (write_candles str_of file seq w)"
  note written = write_candles_text[OF seq assms(5), of str_of]
  from written(1) show "fst (write_candles str_of file seq w) = Inr ()" .
  from written(2)
  have content: "files ?w2 file = Some (concat (map writerow (map fst c0 # ?data)))" .
  from assms(2) seq have hdr: "map fst c0 = five_keys" by (simp add: has_five_keys_def)
  define good where
    "good = list_all (\<lambda>kv :: string \<times> 'v. float_text str_of float_of reread (snd kv))"
  define parses where
    "parses = (\<lambda>row. 5 \<le> length row \<and> list_all (\<lambda>x. float_of x \<noteq> None) (take 5 row))"
  from assms(2) have keys: "\<And>c. c \<in> set seq \<Longrightarrow> has_five_keys c"
    by (simp add: list_all_iff)
  from assms(3) have "list_all good seq" by (simp add: good_def)
  then have vals: "\<And>c. c \<in> set seq \<Longrightarrow> good c" by (simp add: list_all_iff)
  have "\<And>c. c \<in> set seq \<Longrightarrow> plain_row (map (\<lambda>kv. str_of (snd kv)) c)"
    using keys vals data_row_plain unfolding good_def by blast
  then have "list_all plain_row ?data" by (simp add: list_all_iff)
  with hdr have "list_all plain_row (map fst c0 # ?data)" by (simp add: five_keys_plain_row)
  from csv_reader_written[OF this]
  have rows: "csv_reader (concat (map writerow (map fst c0 # ?data))) = (map fst c0 # ?data, None)" .
  have "\<And>c. c \<in> set seq \<Longrightarrow> parses (map (\<lambda>kv. str_of (snd kv)) c)"
    using keys vals data_row_parsed(1,2) unfolding good_def parses_def by blast
  then have "list_all parses ?data" by (simp add: list_all_iff)
  from load_rows_well_formed[OF this[unfolded parses_def], of 1 "[]"]
  have "load_rows float_of (map fst c0 # ?data) None 0 [] =
        Inr (map (parsed_record float_of) ?data)"
    by simp
  moreover have "\<And>c. c \<in> set seq \<Longrightarrow>
      parsed_record float_of (map (\<lambda>kv. str_of (snd kv)) c) = reread_candle reread c"
    using keys vals data_row_parsed(3) unfolding good_def by blast
  then have "map (parsed_record float_of) ?data = map (reread_candle reread) seq"
    by simp
  ultimately show "load_market_data_file float_of file ?w2 =
      (Inr (PyTuple (map (reread_candle reread) seq)), log_event (Open_read file) ?w2)"
    using load_market_data_file_opened[OF assms(4) content rows, of float_of] by simp
qed

lemma reread_candle_same: "map (reread_candle (\<lambda>v. v)) seq = seq"
  by (induction seq) (simp_all add: reread_candle_def)

text \<open>
  Claim C1, as the code has it. Take a non-empty sequence of candles with exactly the keys
  \<^verbatim>\<open>ts, open, high, low, close\<close> in this order, whose values are written as plain
  texts that \<^verbatim>\<open>float\<close> reads back, and a path in which \<^verbatim>\<open>.csv\<close> occurs and
  which can be opened for writing. When the retrieval selected by \<^verbatim>\<open>amount\<close> and
  \<^verbatim>\<open>start\<close> returns the sequence, \<^verbatim>\<open>dump_market_data_to_file\<close> succeeds and
  \<^verbatim>\<open>load_market_data_file\<close> on the same path then returns the sequence, each value
  replaced by what \<^verbatim>\<open>float\<close> reads from its text.
\<close>

theorem dump_then_load:
  fixes str_of :: "'v \<Rightarrow> string" and cls :: "('a, 'v) exchange_class"
  assumes "seq \<noteq> []"
    and "list_all has_five_keys seq"
    and "list_all (list_all (\<lambda>kv. float_text str_of float_of reread (snd kv))) seq"
    and "str_find file ''.csv'' \<noteq> - 1"
    and "amount = Some a
         \<and> get_last_candles_method cls symbol interval a
               (log_event (Get_last_candles symbol interval a) w) = (Inr seq, w1)
       \<or> amount = None \<and> start = Some s
         \<and> get_candles_method cls symbol interval s endt
               (log_event (Get_candles symbol interval s endt) w) = (Inr seq, w1)"
    and "write_errors w1 file = None"
  shows "fst (dump_market_data_to_file cls str_of symbol interval file amount start endt w)
           = Inr ()
       \<and> fst (load_market_data_file float_of file
            (snd (dump_market_data_to_file cls str_of symbol interval file amount start endt w)))
           = Inr (PyTuple (map (reread_candle reread) seq))"
proof -
  from assms(5)
  have "dump_market_data_to_file cls str_of symbol interval file amount start endt w =
        write_candles str_of file seq w1"
    by (auto simp: dump_market_data_to_file_def)
  with write_then_load[OF assms(1-4) assms(6)] show ?thesis by simp
qed

theorem dump_then_load_witness:
  "two_candles \<noteq> []
   \<and> list_all has_five_keys two_candles
   \<and> list_all (list_all (\<lambda>kv. float_text whole_str whole_float (\<lambda>v. v) (snd kv))) two_candles
   \<and> str_find ''x.csv'' ''.csv'' \<noteq> - 1
   \<and> get_last_candles_method (fixed_class two_candles) ''BTC'' ''1h'' 2
         (log_event (Get_last_candles ''BTC'' ''1h'' 2) (new_world Map.empty))
       = (Inr two_candles, log_event (Get_last_candles ''BTC'' ''1h'' 2) (new_world Map.empty))
   \<and> write_errors (log_event (Get_last_candles ''BTC'' ''1h'' 2) (new_world Map.empty)) ''x.csv''
       = None
   \<and> fst (dump_market_data_to_file (fixed_class two_candles) whole_str ''BTC'' ''1h'' ''x.csv''
         (Some 2) None None (new_world Map.empty)) = Inr ()
   \<and> fst (load_market_data_file whole_float ''x.csv''
         (snd (dump_market_data_to_file (fixed_class two_candles) whole_str ''BTC'' ''1h''
            ''x.csv'' (Some 2) None None (new_world Map.empty))))
       = Inr (PyTuple two_candles)"
proof -
  have h1: "two_candles \<noteq> []" by (simp add: two_candles_def)
  have h2: "list_all has_five_keys two_candles" by code_simp
  have h3: "list_all (list_all (\<lambda>kv. float_text whole_str whole_float (\<lambda>v. v) (snd kv)))
      two_candles"
    by code_simp
  have h4: "str_find ''x.csv'' ''.csv'' \<noteq> - 1" by code_simp
  have h5: "get_last_candles_method (fixed_class two_candles) ''BTC'' ''1h'' 2
         (log_event (Get_last_candles ''BTC'' ''1h'' 2) (new_world Map.empty))
       = (Inr two_candles, log_event (Get_last_candles ''BTC'' ''1h'' 2) (new_world Map.empty))"
    by (simp add: fixed_class_def)
  from h5 have h5': "Some (2::nat) = Some 2
         \<and> get_last_candles_method (fixed_class two_candles) ''BTC'' ''1h'' 2
               (log_event (Get_last_candles ''BTC'' ''1h'' 2) (new_world Map.empty))
             = (Inr two_candles, log_event (Get_last_candles ''BTC'' ''1h'' 2) (new_world Map.empty))
       \<or> Some (2::nat) = None \<and> None = Some s
         \<and> get_candles_method (fixed_class two_candles) ''BTC'' ''1h'' s None
               (log_event (Get_candles ''BTC'' ''1h'' s None) (new_world Map.empty))
             = (Inr two_candles, log_event (Get_last_candles ''BTC'' ''1h'' 2) (new_world Map.empty))"
    for s by simp
  have h6: "write_errors (log_event (Get_last_candles ''BTC'' ''1h'' 2) (new_world Map.empty))
      ''x.csv'' = None"
    by (simp add: new_world_def)
  from dump_then_load[OF h1 h2 h3 h4 h5' h6] h1 h2 h3 h4 h5 h6 show ?thesis
    by (simp add: reread_candle_same)
qed

text \<open>
  Where the path cannot be opened for writing, the exception of \<^verbatim>\<open>open\<close> leaves
  \<^verbatim>\<open>dump_market_data_to_file\<close> after the retrieval, and no file is made.
\<close>

lemma dump_not_opened:
  assumes "get_last_candles_method cls symbol interval a
             (log_event (Get_last_candles symbol interval a) w) = (Inr seq, w1)"
    and "write_errors w1 file = Some e"
  shows "dump_market_data_to_file cls str_of symbol interval file (Some a) start endt w =
         (Inl e, log_event (Open_write file) w1)"
  using assms by (simp add: dump_market_data_to_file_def write_candles_not_opened)

text \<open>
  Without \<^verbatim>\<open>.csv\<close> in the path the round trip fails: the same two candles dumped to
  \<^verbatim>\<open>data.txt\<close> are written, and loading \<^verbatim>\<open>data.txt\<close> returns \<^verbatim>\<open>-1\<close>.
\<close>

theorem round_trip_needs_csv_in_name:
  "two_candles \<noteq> []
   \<and> list_all has_five_keys two_candles
   \<and> fst (dump_market_data_to_file (fixed_class two_candles) whole_str ''BTC'' ''1h''
         ''data.txt'' (Some 2) None None (new_world Map.empty)) = Inr ()
   \<and> fst (load_market_data_file whole_float ''data.txt''
         (snd (dump_market_data_to_file (fixed_class two_candles) whole_str ''BTC'' ''1h''
            ''data.txt'' (Some 2) None None (new_world Map.empty))))
       = Inr (PyInt (- 1))
   \<and> fst (load_market_data_file whole_float ''data.txt''
         (snd (dump_market_data_to_file (fixed_class two_candles) whole_str ''BTC'' ''1h''
            ''data.txt'' (Some 2) None None (new_world Map.empty))))
       \<noteq> Inr (PyTuple two_candles)"
  by code_simp

subsection \<open>A file of one line\<close>

text \<open>
  The reader never fails on a line as universal newlines deliver it (no carriage return,
  a line feed at most at its end) that is no longer than the field size limit. So a file
  of at most one such line gives at most one row.
\<close>

lemma char_step:
  assumes "state r \<noteq> EAT_CRNL" and "int (length (field r)) < field_limit"
  shows "\<exists>r'. parse_process_char r (Some c) = Inr r'
           \<and> (c \<noteq> CR \<and> c \<noteq> LF \<longrightarrow> state r' \<noteq> EAT_CRNL)
           \<and> length (field r') \<le> length (field r) + 1"
  using assms
  by (cases "state r")
     (auto simp: parse_process_char_def parse_add_char_def parse_save_field_def)

lemma eat_crnl_step:
  assumes "state r = EAT_CRNL" and "c = CR \<or> c = LF"
  shows "parse_process_char r (Some c) = Inr r"
  using assms by (auto simp: parse_process_char_def)

lemma end_of_line_step:
  "\<exists>r'. parse_process_char r None = Inr r'"
  by (cases "state r") (auto simp: parse_process_char_def)

lemma body_chars:
  assumes "state r \<noteq> EAT_CRNL" and "CR \<notin> set cs" and "LF \<notin> set cs"
    and "int (length (field r) + length cs) \<le> field_limit"
  shows "\<exists>r'. process_chars r cs = Inr r' \<and> state r' \<noteq> EAT_CRNL
           \<and> length (field r') \<le> length (field r) + length cs"
  using assms
proof (induction cs arbitrary: r)
  case Nil
  then show ?case by simp
next
  case (Cons c cs)
  from Cons.prems have "int (length (field r)) < field_limit" by simp
  from char_step[OF Cons.prems(1) this, of c] Cons.prems(2,3)
  obtain r1 where r1: "parse_process_char r (Some c) = Inr r1" "state r1 \<noteq> EAT_CRNL"
    "length (field r1) \<le> length (field r) + 1"
    by auto
  with Cons.prems have "int (length (field r1) + length cs) \<le> field_limit" by simp
  from Cons.IH[OF r1(2) _ _ this] Cons.prems(2,3)
  obtain r' where "process_chars r1 cs = Inr r'" "state r' \<noteq> EAT_CRNL"
    "length (field r') \<le> length (field r1) + length cs"
    by auto
  with r1 show ?case by auto
qed

lemma readlines_concat: "concat (readlines s) = s"
  by (induction s) (auto split: list.splits)

lemma readlines_shape:
  assumes "l \<in> set (readlines s)"
  shows "l \<noteq> [] \<and> LF \<notin> set (butlast l)"
  using assms
proof (induction s arbitrary: l)
  case Nil
  then show ?case by simp
next
  case (Cons c s)
  show ?case
  proof (cases "c = LF")
    case True
    with Cons show ?thesis by auto
  next
    case False
    show ?thesis
    proof (cases "readlines s")
      case Nil
      with False Cons.prems show ?thesis by simp
    next
      case (Cons l0 ls)
      with Cons.IH[of l0] have l0: "l0 \<noteq> []" "LF \<notin> set (butlast l0)" by simp_all
      from Cons False \<open>l \<in> set (readlines (c # s))\<close> have "l = c # l0 \<or> l \<in> set ls" by auto
      then show ?thesis
      proof
        assume "l = c # l0"
        with l0 False show ?thesis by simp
      next
        assume "l \<in> set ls"
        with Cons Cons.IH[of l] show ?thesis by simp
      qed
    qed
  qed
qed

lemma process_line_total:
  assumes "l \<noteq> []" and "LF \<notin> set (butlast l)" and "CR \<notin> set l"
    and "int (length l) \<le> field_limit"
  shows "\<exists>r'. process_line parse_reset l = Inr r'"
proof -
  from assms(1) have l: "l = butlast l @ [last l]" by simp
  from assms(3) have cr: "CR \<notin> set (butlast l)" by (auto dest: in_set_butlastD)
  from assms(1,4) have "int (length (field parse_reset) + length (butlast l)) \<le> field_limit"
    by (simp add: parse_reset_def)
  from body_chars[OF _ cr assms(2) this]
  obtain r1 where r1: "process_chars parse_reset (butlast l) = Inr r1" "state r1 \<noteq> EAT_CRNL"
    "length (field r1) \<le> length (field parse_reset) + length (butlast l)"
    by (auto simp: parse_reset_def)
  moreover from assms(1) have "length (butlast l) < length l" by (cases l) simp_all
  ultimately have "int (length (field r1)) < field_limit"
    using assms(4) by (simp add: parse_reset_def)
  from char_step[OF r1(2) this, of "last l"]
  obtain r2 where r2: "parse_process_char r1 (Some (last l)) = Inr r2" by auto
  from end_of_line_step[of r2] obtain r3 where "parse_process_char r2 None = Inr r3" by auto
  with r1(1) r2 have "process_line parse_reset (butlast l @ [last l]) = Inr r3"
    by (simp add: process_line_def process_chars_append)
  with l show ?thesis by auto
qed

lemma universal_newlines_length: "length (universal_newlines s) \<le> length s"
  by (induction s rule: universal_newlines.induct) auto

lemma one_line_file:
  assumes "length (readlines (universal_newlines text)) \<le> 1"
    and "int (length text) \<le> field_limit"
  shows "\<exists>rows. csv_reader text = (rows, None) \<and> length rows \<le> 1"
proof (cases "readlines (universal_newlines text)")
  case Nil
  then show ?thesis by (simp add: csv_reader_def parse_reset_def)
next
  case (Cons l ls)
  with assms(1) have lines: "readlines (universal_newlines text) = [l]" by simp
  with readlines_concat[of "universal_newlines text"] have l: "l = universal_newlines text"
    by simp
  from lines readlines_shape[of l "universal_newlines text"]
  have "l \<noteq> []" "LF \<notin> set (butlast l)" by simp_all
  moreover from l have "CR \<notin> set l" by (simp add: universal_newlines_no_CR)
  moreover from l assms(2) universal_newlines_length[of "text"] have "int (length l) \<le> field_limit"
    by simp
  ultimately obtain r' where r': "process_line parse_reset l = Inr r'"
    using process_line_total by blast
  have stop: "reader_rows parse_reset [] = ([], None)" by (simp add: parse_reset_def)
  have "\<exists>rows. reader_rows r' [] = (rows, None) \<and> length rows \<le> 1" by simp
  with lines r' stop show ?thesis by (auto simp: csv_reader_def)
qed

text \<open>
  Claim C10, as the code has it. On a path that passes the check on the name, a file of
  at most one line (a header alone, or nothing) that is no longer than the field size
  limit of the reader, 131072 characters, loads as the empty tuple.
\<close>

theorem one_line_file_loads_empty:
  assumes "str_find file ''.csv'' \<noteq> - 1"
    and "files w file = Some content"
    and "length (readlines (universal_newlines content)) \<le> 1"
    and "int (length content) \<le> field_limit"
  shows "load_market_data_file float_of file w =
           (Inr (PyTuple []), log_event (Open_read file) w)"
proof -
  from one_line_file[OF assms(3,4)] obtain rows where
    rows: "csv_reader content = (rows, None)" "length rows \<le> 1"
    by blast
  from rows(2) have "rows = [] \<or> (\<exists>header. rows = [header])"
    by (cases rows) auto
  then have "load_rows float_of rows None 0 [] = Inr []" by auto
  with load_market_data_file_opened[OF assms(1,2) rows(1), of float_of] show ?thesis by simp
qed

theorem one_line_file_loads_empty_witness:
  "str_find ''x.csv'' ''.csv'' \<noteq> - 1
   \<and> files (new_world [''x.csv'' \<mapsto> header_text]) ''x.csv'' = Some header_text
   \<and> length (readlines (universal_newlines header_text)) \<le> 1
   \<and> int (length header_text) \<le> field_limit
   \<and> fst (load_market_data_file whole_float ''x.csv'' (new_world [''x.csv'' \<mapsto> header_text]))
       = Inr (PyTuple [])"
proof -
  have h1: "str_find ''x.csv'' ''.csv'' \<noteq> - 1" by code_simp
  have h2: "files (new_world [''x.csv'' \<mapsto> header_text]) ''x.csv'' = Some header_text"
    by (simp add: new_world_def)
  have h3: "length (readlines (universal_newlines header_text)) \<le> 1" by code_simp
  have h4: "int (length header_text) \<le> field_limit" by code_simp
  from one_line_file_loads_empty[OF h1 h2 h3 h4, of whole_float] h1 h2 h3 h4
  show ?thesis by simp
qed

text \<open>
  Without the bound the claim fails: one line of 131073 letters is one field longer than
  the limit, and the reader raises \<^verbatim>\<open>csv.Error\<close> at its last letter.
\<close>

lemma universal_newlines_same:
  assumes "CR \<notin> set s"
  shows "universal_newlines s = s"
  using assms by (induction s rule: universal_newlines.induct) auto

lemma readlines_single:
  assumes "s \<noteq> []" and "LF \<notin> set s"
  shows "readlines s = [s]"
  using assms
proof (induction s)
  case Nil
  then show ?case by simp
next
  case (Cons c s)
  then show ?case by (cases s) auto
qed

lemma overlong_field:
  assumes "plain f" and "field_limit < int (length f)"
  shows "process_chars \<lparr>state = START_FIELD, field = [], parsed = ps\<rparr> f = Inl CsvError"
proof -
  define n where "n = nat field_limit"
  have n: "int n = field_limit" "0 < n" by (simp_all add: n_def field_limit_def)
  with assms(2) have len: "n < length f" by simp
  then obtain c rest where d: "drop n f = c # rest" by (cases "drop n f") auto
  have f: "f = take n f @ c # rest" using d by (metis append_take_drop_id)
  from assms(1) have pt: "plain (take n f)"
    by (auto simp: plain_def dest: in_set_takeD)
  from len n have lt: "int (length (take n f)) \<le> field_limit" "take n f \<noteq> []" by auto
  from f assms(1) have c: "c \<noteq> delimiter" "c \<noteq> CR" "c \<noteq> LF"
    by (metis in_set_conv_decomp plain_def)+
  from start_field_chars[OF pt lt(1), of ps] lt(2)
  have "process_chars \<lparr>state = START_FIELD, field = [], parsed = ps\<rparr> (take n f) =
        Inr \<lparr>state = IN_FIELD, field = take n f, parsed = ps\<rparr>"
    by simp
  moreover from len n have "field_limit \<le> int (length (take n f))" by simp
  then have "parse_process_char \<lparr>state = IN_FIELD, field = take n f, parsed = ps\<rparr> (Some c) =
        Inl CsvError"
    using c by (simp add: parse_process_char_def parse_add_char_def)
  ultimately have "process_chars \<lparr>state = START_FIELD, field = [], parsed = ps\<rparr>
      (take n f @ c # rest) = Inl CsvError"
    by (simp add: process_chars_append)
  with f show ?thesis by simp
qed

lemma overlong_line:
  assumes "plain f" and "field_limit < int (length f)"
  shows "csv_reader f = ([], Some CsvError)"
proof -
  from assms(2) have ne: "f \<noteq> []" by (auto simp: field_limit_def)
  then obtain c cs where f: "f = c # cs" by (cases f) auto
  with assms(1) have c: "c \<noteq> CR" "c \<noteq> LF" by (auto simp: plain_def)
  from assms(1) have "CR \<notin> set f" "LF \<notin> set f" by (simp_all add: plain_def)
  with ne have lines: "readlines (universal_newlines f) = [f]"
    by (simp add: universal_newlines_same readlines_single)
  from start_record_first[OF c, of "[]" cs] overlong_field[OF assms, of "[]"] f
  have "process_chars parse_reset f = Inl CsvError" by (simp add: parse_reset_def)
  then have "process_line parse_reset f = Inl CsvError" by (simp add: process_line_def)
  with lines show ?thesis by (simp add: csv_reader_def)
qed

lemma long_line_text_plain: "plain long_line_text"
  by (simp add: long_line_text_def plain_def delimiter_def writer_quotechar_def
      reader_quotechar_def CR_def LF_def)

lemma long_line_text_length: "field_limit < int (length long_line_text)"
  by (simp add: long_line_text_def field_limit_def)

theorem one_long_line_raises:
  "str_find ''x.csv'' ''.csv'' \<noteq> - 1
   \<and> files (new_world [''x.csv'' \<mapsto> long_line_text]) ''x.csv'' = Some long_line_text
   \<and> length (readlines (universal_newlines long_line_text)) \<le> 1
   \<and> fst (load_market_data_file whole_float ''x.csv'' (new_world [''x.csv'' \<mapsto> long_line_text]))
       = Inl CsvError"
proof -
  have h1: "str_find ''x.csv'' ''.csv'' \<noteq> - 1" by code_simp
  have h2: "files (new_world [''x.csv'' \<mapsto> long_line_text]) ''x.csv'' = Some long_line_text"
    by (simp add: new_world_def)
  from long_line_text_plain long_line_text_length
  have ne: "long_line_text \<noteq> []" and "CR \<notin> set long_line_text" "LF \<notin> set long_line_text"
    by (auto simp: plain_def field_limit_def)
  then have h3: "readlines (universal_newlines long_line_text) = [long_line_text]"
    by (simp add: universal_newlines_same readlines_single)
  note r = overlong_line[OF long_line_text_plain long_line_text_length]
  from load_market_data_file_opened[OF h1 h2 r, of whole_float]
  have "fst (load_market_data_file whole_float ''x.csv''
      (new_world [''x.csv'' \<mapsto> long_line_text])) = Inl CsvError"
    by simp
  with h1 h2 h3 show ?thesis by simp
qed

subsection \<open>The check on the file name\<close>

text \<open>
  A path is refused exactly when \<^verbatim>\<open>.csv\<close> occurs nowhere in it (lemma
  \<open>str_find_absent\<close>); then nothing is opened. Every path that ends in \<^verbatim>\<open>.csv\<close>
  passes.
\<close>

lemma csv_extension_passes:
  assumes "endswith file ''.csv''"
  shows "str_find file ''.csv'' \<noteq> - 1"
  using assms by (rule endswith_found)

lemma no_csv_in_name:
  assumes "str_find file ''.csv'' = - 1"
  shows "load_market_data_file float_of file w =
           (Inr (PyInt (- 1)), print ''ERROR: Please provide .csv file'' w)"
  using assms by (simp add: load_market_data_file_def)

lemma load_data_txt:
  "load_market_data_file float_of ''data.txt'' w =
           (Inr (PyInt (- 1)), print ''ERROR: Please provide .csv file'' w)"
  by (simp add: load_market_data_file_def)

text \<open>
  Claim C4. The check is \<^verbatim>\<open>file.find(".csv") == -1\<close>: a path is refused only when
  \<^verbatim>\<open>.csv\<close> occurs nowhere in it. The path \<^verbatim>\<open>data.csv.bak\<close> does not end in
  \<^verbatim>\<open>.csv\<close>, yet it passes: the file is opened, read and parsed, and nothing is
  printed.
\<close>

theorem csv_substring_accepted:
  "\<not> endswith ''data.csv.bak'' ''.csv''
   \<and> str_find ''data.csv.bak'' ''.csv'' = 4
   \<and> fst (load_market_data_file whole_float ''data.csv.bak''
          (new_world [''data.csv.bak'' \<mapsto> two_rows_text]))
       = Inr (PyTuple
           [[(''ts'', 1), (''open'', 10), (''high'', 12), (''low'', 9), (''close'', 11)],
            [(''ts'', 2), (''open'', 11), (''high'', 13), (''low'', 10), (''close'', 12)]])
   \<and> trace (snd (load_market_data_file whole_float ''data.csv.bak''
          (new_world [''data.csv.bak'' \<mapsto> two_rows_text])))
       = [Open_read ''data.csv.bak'']
   \<and> stdout (snd (load_market_data_file whole_float ''data.csv.bak''
          (new_world [''data.csv.bak'' \<mapsto> two_rows_text])))
       = []"
  by code_simp

section \<open>The credentials\<close>

text \<open>
  Claim C9. \<^verbatim>\<open>ExchangeAPI(name, access_key, secret_key, api_passphrase)\<close> stores
  \<^verbatim>\<open>name.lower()\<close> as the name, whatever the name is and whatever \<^verbatim>\<open>str.lower\<close>
  does on it, and the other three as given. No operation of the class changes the object
  afterwards: not the ten operations that raise, not \<^verbatim>\<open>load_market_data_file\<close>, and
  not \<^verbatim>\<open>dump_market_data_to_file\<close> as long as the retrieval methods supplied by the
  subclass leave it alone.
\<close>

theorem credential_bundle:
  assumes "\<And>s i a v. self (snd (get_last_candles_method cls s i a v)) = self v"
    and "\<And>s i st e v. self (snd (get_candles_method cls s i st e v)) = self v"
  shows "name (ExchangeAPI_init lower nm ak sk pp) = lower nm
       \<and> access_key (ExchangeAPI_init lower nm ak sk pp) = ak
       \<and> secret_key (ExchangeAPI_init lower nm ak sk pp) = sk
       \<and> api_passphrase (ExchangeAPI_init lower nm ak sk pp) = pp
       \<and> self (snd (dump_market_data_to_file cls str_of symbol interval file amount start endt w))
           = self w
       \<and> self (snd (load_market_data_file float_of file w)) = self w
       \<and> self (snd (get_all_balances w)) = self w
       \<and> self (snd (get_balance coin w)) = self w
       \<and> self (snd (get_available_markets w)) = self w
       \<and> self (snd (get_coin_price coin pair w)) = self w
       \<and> self (snd (get_coins_prices w)) = self w
       \<and> self (snd (get_order_book market side w)) = self w
       \<and> self (snd (withdraw_asset asset target_addr quantity w)) = self w
       \<and> self (snd (create_order market side price quantity w)) = self w
       \<and> self (snd (get_candles symbol interval st endt w)) = self w
       \<and> self (snd (get_last_candles symbol interval a w)) = self w"
  using dump_self[OF assms]
  by (simp add: ExchangeAPI_init_def load_self get_all_balances_def get_balance_def
      get_available_markets_def get_coin_price_def get_coins_prices_def get_order_book_def
      withdraw_asset_def create_order_def get_candles_def get_last_candles_def)

theorem credential_bundle_witness:
  "(\<forall>s i a v. self (snd (get_last_candles_method (fixed_class two_candles) s i a (v :: nat world))) = self v)
   \<and> (\<forall>s i st e v. self (snd (get_candles_method (fixed_class two_candles) s i st e (v :: nat world))) = self v)
   \<and> name (ExchangeAPI_init ascii_lower ''Binance'' ''key'' ''secret'' None) = ''binance''
   \<and> self (snd (dump_market_data_to_file (fixed_class two_candles) whole_str ''BTC'' ''1h''
         ''x.csv'' (Some 2) None None (new_world Map.empty)))
       = ExchangeAPI_init ascii_lower ''Binance'' ''key'' ''secret'' None"
proof -
  have h1: "\<And>s i a v. self (snd (get_last_candles_method (fixed_class two_candles) s i a (v :: nat world)))
      = self v"
    by (simp add: fixed_class_def)
  have h2: "\<And>s i st e v. self (snd (get_candles_method (fixed_class two_candles) s i st e (v :: nat world)))
      = self v"
    by (simp add: fixed_class_def)
  have h3: "ascii_lower ''Binance'' = ''binance''" by code_simp
  have h4: "self (new_world Map.empty) =
      ExchangeAPI_init ascii_lower ''Binance'' ''key'' ''secret'' None"
    by (simp add: new_world_def)
  note b = credential_bundle[OF h1 h2, of ascii_lower "''Binance''" "''key''" "''secret''" None
      whole_str "''BTC''" "''1h''" "''x.csv''" "Some 2" None None "new_world Map.empty"]
  from b[THEN conjunct1]
  have n: "name (ExchangeAPI_init ascii_lower ''Binance'' ''key'' ''secret'' None) =
      ascii_lower ''Binance''" .
  from b[THEN conjunct2, THEN conjunct2, THEN conjunct2, THEN conjunct2, THEN conjunct1]
  have d: "self (snd (dump_market_data_to_file (fixed_class two_candles) whole_str ''BTC'' ''1h''
         ''x.csv'' (Some 2) None None (new_world Map.empty))) = self (new_world Map.empty)" .
  from n d h1 h2 h3 h4 show ?thesis by simp
qed

end
